(* ===== verification/Prelude.thy ===== *)
theory Prelude
  imports Main "HOL-Library.Word"
begin

text \<open>
  Shared vocabulary of the development: C's integer types at their width, pointers and the
  allocator, the ways a C program can go wrong, and the generic facts on maps, lists and words
  that the component theories use.

  Memory is a partial map from addresses to cells. An address is a natural number, a pointer is
  an optional address (\<open>None\<close> is \<open>NULL\<close>). A cell that is not in the map is not allocated, so an
  access to a freed block, a second \<open>free\<close> of it and a dereference of \<open>NULL\<close> are detected and are
  values of the type \<open>fault\<close>. The allocator may hand out any address that is not in use,
  also one that was freed before, with indeterminate contents, or may fail.
\<close>

section \<open>Types of C\<close>

type_synonym c_int = "32 word"
type_synonym c_long = "64 word"
type_synonym c_ulong = "64 word"
type_synonym c_char = "8 word"
type_synonym addr = nat
type_synonym ptr = "addr option"
type_synonym 'c heap = "addr \<rightharpoonup> 'c"

text \<open>What undefined behaviour or a failed \<open>assert\<close> the model distinguishes.\<close>

datatype fault =
    NullDeref \<comment> \<open>a \<open>NULL\<close> pointer is dereferenced\<close>
  | BadAccess \<comment> \<open>a read or write of a block that is not allocated\<close>
  | BadFree \<comment> \<open>\<open>free\<close> of a pointer that is neither \<open>NULL\<close> nor an allocated block\<close>
  | AssertFailed \<comment> \<open>an \<open>assert\<close> of the source fails\<close>
  | OutOfBounds \<comment> \<open>an access past the end of an array or a buffer\<close>
  | Uninitialised \<comment> \<open>a decision taken on a value that was never written\<close>
  | DivByZero \<comment> \<open>an integer division or remainder by zero\<close>

named_theorems sym_exec \<open>equations that execute a statement symbolically\<close>
named_theorems c_int_simps \<open>reading small natural numbers kept in C integers\<close>

section \<open>Reading and writing cells\<close>

definition load :: "'c heap \<Rightarrow> ptr \<Rightarrow> fault + 'c" where
  "load h p = (case p of None \<Rightarrow> Inl NullDeref
     | Some a \<Rightarrow> (case h a of None \<Rightarrow> Inl BadAccess | Some c \<Rightarrow> Inr c))"

definition store :: "'c heap \<Rightarrow> ptr \<Rightarrow> ('c \<Rightarrow> 'c) \<Rightarrow> fault + 'c heap" where
  "store h p f = (case load h p of Inl e \<Rightarrow> Inl e | Inr c \<Rightarrow> Inr (h(the p \<mapsto> f c)))"

definition free_cell :: "'c heap \<Rightarrow> ptr \<Rightarrow> fault + 'c heap" where
  "free_cell h p = (case p of None \<Rightarrow> Inr h
     | Some a \<Rightarrow> (if a \<in> dom h then Inr (h(a := None)) else Inl BadFree))"

lemma load_Inr [simp]: "load h p = Inr c \<longleftrightarrow> (\<exists>a. p = Some a \<and> h a = Some c)"
  by (auto simp: load_def split: option.splits)

lemma load_Some [simp]: "h a = Some c \<Longrightarrow> load h (Some a) = Inr c"
  by simp

lemma store_Some [simp]: "h a = Some c \<Longrightarrow> store h (Some a) f = Inr (h(a \<mapsto> f c))"
  by (simp add: store_def)

lemma store_Inr: "store h p f = Inr h' \<longleftrightarrow> (\<exists>a c. p = Some a \<and> h a = Some c \<and> h' = h(a \<mapsto> f c))"
  by (auto simp: store_def split: sum.splits)

lemma free_cell_Some [simp]: "h a = Some c \<Longrightarrow> free_cell h (Some a) = Inr (h(a := None))"
  by (auto simp: free_cell_def)

lemma free_cell_Inr:
  "free_cell h p = Inr h' \<longleftrightarrow>
     (p = None \<and> h' = h \<or> (\<exists>a. p = Some a \<and> a \<in> dom h \<and> h' = h(a := None)))"
  by (auto simp: free_cell_def split: option.splits)

section \<open>Disjoint heaps\<close>

abbreviation disj :: "'c heap \<Rightarrow> 'c heap \<Rightarrow> bool" where
  "disj h1 h2 \<equiv> dom h1 \<inter> dom h2 = {}"

lemma map_add_disj_left: "disj h1 h2 \<Longrightarrow> h1 a = Some v \<Longrightarrow> (h1 ++ h2) a = Some v"
  by (auto simp: map_add_def split: option.splits)

lemma map_add_upd_left_disj: "a \<notin> dom h2 \<Longrightarrow> (h1 ++ h2)(a \<mapsto> v) = h1(a \<mapsto> v) ++ h2"
  by (rule ext) (auto simp: map_add_def split: option.splits)

lemma map_add_del_left_disj: "a \<notin> dom h2 \<Longrightarrow> (h1 ++ h2)(a := None) = h1(a := None) ++ h2"
  by (rule ext) (auto simp: map_add_def split: option.splits)

lemma map_add_single: "b \<notin> dom h \<Longrightarrow> [b \<mapsto> c] ++ h = h(b \<mapsto> c)"
  by (rule ext) (auto simp: map_add_def split: option.splits)

lemma load_frame: "disj h1 h2 \<Longrightarrow> load h1 p = Inr c \<Longrightarrow> load (h1 ++ h2) p = Inr c"
  by (auto intro: map_add_disj_left)

lemma store_frame:
  assumes "disj h1 h2" and "store h1 p f = Inr h1'"
  shows "store (h1 ++ h2) p f = Inr (h1' ++ h2) \<and> disj h1' h2"
proof -
  from assms(2) obtain a c where a: "p = Some a" "h1 a = Some c" "h1' = h1(a \<mapsto> f c)"
    by (auto simp: store_Inr)
  with assms(1) have "(h1 ++ h2) a = Some c" and "a \<notin> dom h2"
    by (auto intro: map_add_disj_left)
  with a assms(1) show ?thesis by (auto simp: map_add_upd_left_disj)
qed

lemma free_frame:
  assumes "disj h1 h2" and "free_cell h1 p = Inr h1'"
  shows "free_cell (h1 ++ h2) p = Inr (h1' ++ h2) \<and> disj h1' h2"
proof (cases p)
  case None
  with assms show ?thesis by (simp add: free_cell_def)
next
  case (Some a)
  with assms(2) have a: "a \<in> dom h1" "h1' = h1(a := None)" by (auto simp: free_cell_Inr)
  with assms(1) have "a \<notin> dom h2" by blast
  with a assms(1) Some show ?thesis
    by (auto simp: free_cell_def map_add_del_left_disj)
qed

section \<open>Small numbers in C integers\<close>

lemma sint_of_nat_c_int [c_int_simps]: "n < 2 ^ 31 \<Longrightarrow> sint (of_nat n :: c_int) = int n"
  by (simp add: signed_of_nat signed_take_bit_int_eq_self)

lemma of_nat_c_int_eq [c_int_simps]:
  "m < 2 ^ 31 \<Longrightarrow> n < 2 ^ 31 \<Longrightarrow> (of_nat m :: c_int) = of_nat n \<longleftrightarrow> m = n"
  by (metis sint_of_nat_c_int of_nat_eq_iff)

lemma of_nat_c_int_0 [c_int_simps]: "n < 2 ^ 31 \<Longrightarrow> (of_nat n :: c_int) = 0 \<longleftrightarrow> n = 0"
  using of_nat_c_int_eq [of n 0] by simp

lemma of_nat_c_int_sle [c_int_simps]:
  "m < 2 ^ 31 \<Longrightarrow> n < 2 ^ 31 \<Longrightarrow> (of_nat m :: c_int) <=s of_nat n \<longleftrightarrow> m \<le> n"
  by (simp add: word_sle_eq sint_of_nat_c_int)

lemma c_int_nonneg [c_int_simps]: "n < 2 ^ 31 \<Longrightarrow> (0 :: c_int) <=s of_nat n"
  using of_nat_c_int_sle [of 0 n] by simp

lemma c_int_sless_unat:
  assumes "unat i < 2 ^ 31" and "unat n < 2 ^ 31"
  shows "(i :: c_int) <s n \<longleftrightarrow> unat i < unat n"
  using assms sint_of_nat_c_int [of "unat i"] sint_of_nat_c_int [of "unat n"]
  by (simp add: word_sless_alt flip: of_nat_less_iff [where 'a = int])

lemma unat_of_nat_c_int: "n < 2 ^ 32 \<Longrightarrow> unat (of_nat n :: c_int) = n"
  by (simp add: unsigned_of_nat take_bit_nat_eq_self)

lemma c_int_inc_unat: "unat (i :: c_int) < 2 ^ 31 \<Longrightarrow> unat (i + 1) = unat i + 1"
  using unat_of_nat_c_int [of "unat i + 1"] by (simp add: add.commute)

text \<open>Conversion of a \<open>long\<close> to an \<open>int\<close> keeps the low half, so it commutes with addition.\<close>

lemma take_bit_32_64: "take_bit 32 (take_bit 64 a) = take_bit 32 (a :: int)"
  by (simp add: take_bit_take_bit)

lemma take_bit_32_add: "take_bit 32 (x + y) = take_bit 32 (take_bit 64 x + take_bit 64 (y :: int))"
  using take_bit_add [of 32 x y] take_bit_add [of 32 "take_bit 64 x" "take_bit 64 y"]
  by (simp only: take_bit_32_64)

lemma ucast_add_c_int: "(ucast (x + y :: c_long) :: c_int) = ucast x + ucast y"
  by transfer (simp, rule take_bit_32_add)

lemma ucast_of_nat_c_int: "(ucast (of_nat n :: c_long) :: c_int) = of_nat n"
  by (induction n) (simp_all add: ucast_add_c_int)

section \<open>Strings and buffers\<close>

text \<open>The bytes of a C string that starts at the beginning of the list.\<close>

definition c_str :: "c_char list \<Rightarrow> c_char list" where
  "c_str s = takeWhile (\<lambda>c. c \<noteq> 0) s"

lemma c_str_append [simp]: "0 \<notin> set s \<Longrightarrow> c_str (s @ 0 # t) = s"
  by (auto simp: c_str_def takeWhile_append)

lemma c_str_no_null [simp]: "0 \<notin> set s \<Longrightarrow> c_str s = s"
  by (auto simp: c_str_def takeWhile_eq_all_conv)

text \<open>\<open>%d\<close> of a non-negative number.\<close>

fun digits :: "nat \<Rightarrow> string" where
  "digits n = (if n < 10 then [char_of (48 + n)] else digits (n div 10) @ [char_of (48 + n mod 10)])"

declare digits.simps [simp del]

lemma digits_length: "n < 10 ^ Suc k \<Longrightarrow> length (digits n) \<le> Suc k"
proof (induction k arbitrary: n)
  case 0
  then show ?case by (simp add: digits.simps [of n])
next
  case (Suc k)
  then have "n div 10 < 10 ^ Suc k" by (simp add: less_mult_imp_div_less mult.commute)
  from Suc.IH [OF this] show ?case by (simp add: digits.simps [of n])
qed

text \<open>Computations that may fault, one after the other.\<close>

definition fbind :: "fault + 'a \<Rightarrow> ('a \<Rightarrow> fault + 'b) \<Rightarrow> fault + 'b" where
  "fbind x f = (case x of Inl e \<Rightarrow> Inl e | Inr y \<Rightarrow> f y)"

lemma fbind_simps [simp]: "fbind (Inr y) f = f y" "fbind (Inl e) f = Inl e"
  by (simp_all add: fbind_def)

text \<open>The bytes of a string literal, without its terminator.\<close>

definition bytes_of :: "string \<Rightarrow> c_char list" where
  "bytes_of s = map (\<lambda>c. of_nat (of_char c)) s"

section \<open>Lists\<close>

lemma replicate_num: "replicate (numeral k) x = x # replicate (pred_numeral k) x"
  by (simp add: numeral_eq_Suc)

section \<open>Counting\<close>

lemma length_filter_update:
  "i < length xs \<Longrightarrow> length (filter P (xs[i := x])) + of_bool (P (xs ! i)) = length (filter P xs) + of_bool (P x)"
proof (induction xs arbitrary: i)
  case (Cons a xs)
  show ?case
  proof (cases i)
    case 0
    then show ?thesis by simp
  next
    case (Suc j)
    with Cons.IH [of j] Cons.prems show ?thesis by auto
  qed
qed simp

end
