(* ===== verification/Lock_Program.thy ===== *)
theory Lock_Program
  imports Prelude
begin

text \<open>
  Threads that share global variables, a heap and one lock. The theory has
  \<^item> the interleaving semantics: a system state (\<open>sys\<close>), the step relation \<open>lp_step\<close> in which
    any thread executes one statement, and the states \<open>lp_reach\<close> it reaches;
  \<^item> the locale \<open>lock_iface\<close>, what a lock promises, and its three providers of the threads
    library that the program uses: the mutex, the spin lock and the semaphore;
  \<^item> the predicates \<open>safe_out\<close> and \<open>safe_in\<close>: a thread outside (inside) its critical section
    runs without a fault on the cells it owns (and on the protected data), takes the lock with
    the resource invariant established and gives it back re-established;
  \<^item> the locale \<open>lock_program\<close>: if every thread is safe in that sense, each on its own, then every
    interleaving is free of faults, keeps the resource invariant and never deadlocks.
\<close>

section \<open>Statements, choices, outcomes\<close>

text \<open>What a statement of a thread is to the scheduler.\<close>

datatype opkind = KAct | KLock | KUnlock

text \<open>
  The allocator's answer, made by the environment at every step: a block that is not in use, with
  indeterminate contents, or \<open>NULL\<close>. Statements that allocate nothing ignore it.
\<close>

datatype 'c choice = ChAlloc addr 'c | ChFail

fun allowed :: "'c choice \<Rightarrow> 'c heap \<Rightarrow> bool" where
  "allowed (ChAlloc a c) h = (a \<notin> dom h)"
| "allowed ChFail h = True"

datatype ('l, 'g, 'c) outcome =
    Next 'l 'g "'c heap"
  | Exit \<comment> \<open>the process ends on purpose: \<open>abort()\<close>, \<open>exit()\<close>\<close>
  | Fault fault

datatype status = Running | Exited | Crashed fault

record ('t, 'l, 'g, 'c, 'k) sys =
  locals :: "'t \<Rightarrow> 'l"
  glob :: 'g
  cells :: "'c heap"
  lk :: 'k
  st :: status

record ('t, 'l, 'g, 'c, 'k) prog =
  kind :: "'l \<Rightarrow> opkind"
  pop :: "'l \<Rightarrow> 'l"
  exec :: "'c choice \<Rightarrow> 'l \<Rightarrow> 'g \<Rightarrow> 'c heap \<Rightarrow> ('l, 'g, 'c) outcome"
  acq :: "'t \<Rightarrow> 'k \<Rightarrow> 'k option"
  rel :: "'t \<Rightarrow> 'k \<Rightarrow> 'k"

section \<open>Interleaving\<close>

inductive lp_step ::
  "('t, 'l, 'g, 'c, 'k) prog \<Rightarrow> ('t, 'l, 'g, 'c, 'k) sys \<Rightarrow> ('t, 'l, 'g, 'c, 'k) sys \<Rightarrow> bool"
  for P where
  act: "st s = Running \<Longrightarrow> kind P (locals s t) = KAct \<Longrightarrow> allowed c (cells s) \<Longrightarrow>
     exec P c (locals s t) (glob s) (cells s) = Next l' g' h' \<Longrightarrow>
     lp_step P s (s\<lparr>locals := (locals s)(t := l'), glob := g', cells := h'\<rparr>)"
| quit: "st s = Running \<Longrightarrow> kind P (locals s t) = KAct \<Longrightarrow> allowed c (cells s) \<Longrightarrow>
     exec P c (locals s t) (glob s) (cells s) = Exit \<Longrightarrow> lp_step P s (s\<lparr>st := Exited\<rparr>)"
| crash: "st s = Running \<Longrightarrow> kind P (locals s t) = KAct \<Longrightarrow> allowed c (cells s) \<Longrightarrow>
     exec P c (locals s t) (glob s) (cells s) = Fault f \<Longrightarrow> lp_step P s (s\<lparr>st := Crashed f\<rparr>)"
| lock: "st s = Running \<Longrightarrow> kind P (locals s t) = KLock \<Longrightarrow> acq P t (lk s) = Some k' \<Longrightarrow>
     lp_step P s (s\<lparr>locals := (locals s)(t := pop P (locals s t)), lk := k'\<rparr>)"
| unlock: "st s = Running \<Longrightarrow> kind P (locals s t) = KUnlock \<Longrightarrow>
     lp_step P s (s\<lparr>locals := (locals s)(t := pop P (locals s t)), lk := rel P t (lk s)\<rparr>)"

inductive lp_reach ::
  "('t, 'l, 'g, 'c, 'k) prog \<Rightarrow> ('t, 'l, 'g, 'c, 'k) sys \<Rightarrow> ('t, 'l, 'g, 'c, 'k) sys \<Rightarrow> bool"
  for P s0 where
  reach_refl: "lp_reach P s0 s0"
| reach_step: "lp_reach P s0 s \<Longrightarrow> lp_step P s s' \<Longrightarrow> lp_reach P s0 s'"

text \<open>
  Running a schedule: a list of threads and allocator choices, executed in order. It is the
  executable counterpart of \<open>lp_reach\<close> and is how concrete interleavings are evaluated. \<open>None\<close>: the
  schedule asks for a step that is not possible.
\<close>

fun do_step :: "('t, 'l, 'g, 'c, 'k) prog \<Rightarrow> 't \<times> 'c choice \<Rightarrow> ('t, 'l, 'g, 'c, 'k) sys \<Rightarrow>
    ('t, 'l, 'g, 'c, 'k) sys option" where
  "do_step P (t, c) s =
     (if st s \<noteq> Running then None
      else case kind P (locals s t) of
        KAct \<Rightarrow> if \<not> allowed c (cells s) then None else
          (case exec P c (locals s t) (glob s) (cells s) of
             Next l' g' h' \<Rightarrow> Some (s\<lparr>locals := (locals s)(t := l'), glob := g', cells := h'\<rparr>)
           | Exit \<Rightarrow> Some (s\<lparr>st := Exited\<rparr>)
           | Fault f \<Rightarrow> Some (s\<lparr>st := Crashed f\<rparr>))
      | KLock \<Rightarrow> map_option (\<lambda>k'. s\<lparr>locals := (locals s)(t := pop P (locals s t)), lk := k'\<rparr>)
                   (acq P t (lk s))
      | KUnlock \<Rightarrow> Some (s\<lparr>locals := (locals s)(t := pop P (locals s t)), lk := rel P t (lk s)\<rparr>))"

fun do_sched :: "('t, 'l, 'g, 'c, 'k) prog \<Rightarrow> ('t \<times> 'c choice) list \<Rightarrow>
    ('t, 'l, 'g, 'c, 'k) sys \<Rightarrow> ('t, 'l, 'g, 'c, 'k) sys option" where
  "do_sched P [] s = Some s"
| "do_sched P (x # xs) s = (case do_step P x s of None \<Rightarrow> None | Some s' \<Rightarrow> do_sched P xs s')"

lemma do_step_lp_step: "do_step P (t, c) s = Some s' \<Longrightarrow> lp_step P s s'"
  by (auto split: if_splits opkind.splits outcome.splits intro: lp_step.intros)

lemma lp_step_do_step: "lp_step P s s' \<Longrightarrow> \<exists>x. do_step P x s = Some s'"
proof (induction rule: lp_step.induct)
  case (act s t c l' g' h')
  then have "do_step P (t, c) s = Some (s\<lparr>locals := (locals s)(t := l'), glob := g', cells := h'\<rparr>)"
    by simp
  then show ?case ..
next
  case (quit s t c)
  then have "do_step P (t, c) s = Some (s\<lparr>st := Exited\<rparr>)" by simp
  then show ?case ..
next
  case (crash s t c f)
  then have "do_step P (t, c) s = Some (s\<lparr>st := Crashed f\<rparr>)" by simp
  then show ?case ..
next
  case (lock s t k')
  then have "do_step P (t, ChFail) s =
      Some (s\<lparr>locals := (locals s)(t := pop P (locals s t)), lk := k'\<rparr>)" by simp
  then show ?case ..
next
  case (unlock s t)
  then have "do_step P (t, ChFail) s =
      Some (s\<lparr>locals := (locals s)(t := pop P (locals s t)), lk := rel P t (lk s)\<rparr>)" by simp
  then show ?case ..
qed

lemma do_sched_append:
  "do_sched P (xs @ ys) s = (case do_sched P xs s of None \<Rightarrow> None | Some s' \<Rightarrow> do_sched P ys s')"
  by (induction xs arbitrary: s) (auto split: option.splits)

text \<open>The reachable states are exactly the results of the schedules.\<close>

lemma lp_reach_iff_sched: "lp_reach P s0 s \<longleftrightarrow> (\<exists>xs. do_sched P xs s0 = Some s)"
proof
  assume "lp_reach P s0 s"
  then show "\<exists>xs. do_sched P xs s0 = Some s"
  proof (induction rule: lp_reach.induct)
    case reach_refl
    have "do_sched P [] s0 = Some s0" by simp
    then show ?case ..
  next
    case (reach_step s s')
    then obtain xs x where "do_sched P xs s0 = Some s" "do_step P x s = Some s'"
      using lp_step_do_step by blast
    then have "do_sched P (xs @ [x]) s0 = Some s'" by (simp add: do_sched_append)
    then show ?case ..
  qed
next
  assume "\<exists>xs. do_sched P xs s0 = Some s"
  then obtain xs where "do_sched P xs s0 = Some s" ..
  then show "lp_reach P s0 s"
  proof (induction xs arbitrary: s rule: rev_induct)
    case Nil
    then show ?case by (auto intro: reach_refl)
  next
    case (snoc x xs)
    obtain t c where x: "x = (t, c)" by force
    from snoc.prems obtain s1 where s1: "do_sched P xs s0 = Some s1" "do_step P x s1 = Some s"
      by (auto simp: do_sched_append split: option.splits)
    from s1(1) have "lp_reach P s0 s1" by (rule snoc.IH)
    moreover from s1(2) x have "lp_step P s1 s" using do_step_lp_step by metis
    ultimately show ?case by (rule reach_step)
  qed
qed

section \<open>What a lock promises\<close>

text \<open>
  \<open>acq t k = None\<close> means that thread \<open>t\<close> has to wait. A lock that is free can be taken by anyone, a
  lock that was taken is held until it is released.
\<close>

locale lock_iface =
  fixes acq :: "'t \<Rightarrow> 'k \<Rightarrow> 'k option"
    and rel :: "'t \<Rightarrow> 'k \<Rightarrow> 'k"
    and locked :: "'k \<Rightarrow> bool"
    and lock_ok :: "'k \<Rightarrow> bool"
  assumes acq_takes: "lock_ok k \<Longrightarrow> acq t k = Some k' \<Longrightarrow> \<not> locked k \<and> locked k' \<and> lock_ok k'"
    and acq_ready: "lock_ok k \<Longrightarrow> \<not> locked k \<Longrightarrow> acq t k \<noteq> None"
    and rel_frees: "lock_ok k \<Longrightarrow> locked k \<Longrightarrow> \<not> locked (rel t k) \<and> lock_ok (rel t k)"

text \<open>
  The mutex of the threads library remembers its owner; the spin lock is one word that is
  exchanged atomically; the semaphore is a counter, \<open>sem_wait\<close> waits while it is zero.
\<close>

type_synonym 't pthread_mutex = "'t option"

fun pthread_mutex_lock :: "'t \<Rightarrow> 't pthread_mutex \<Rightarrow> 't pthread_mutex option" where
  "pthread_mutex_lock t None = Some (Some t)"
| "pthread_mutex_lock t (Some u) = None"

fun pthread_mutex_unlock :: "'t \<Rightarrow> 't pthread_mutex \<Rightarrow> 't pthread_mutex" where
  "pthread_mutex_unlock t m = None"

type_synonym pthread_spinlock = bool

fun pthread_spin_lock :: "'t \<Rightarrow> pthread_spinlock \<Rightarrow> pthread_spinlock option" where
  "pthread_spin_lock t b = (if b then None else Some True)"

fun pthread_spin_unlock :: "'t \<Rightarrow> pthread_spinlock \<Rightarrow> pthread_spinlock" where
  "pthread_spin_unlock t b = False"

type_synonym sem_t = nat

fun sem_wait :: "'t \<Rightarrow> sem_t \<Rightarrow> sem_t option" where
  "sem_wait t v = (if v = 0 then None else Some (v - 1))"

fun sem_post :: "'t \<Rightarrow> sem_t \<Rightarrow> sem_t" where
  "sem_post t v = Suc v"

interpretation mutex: lock_iface pthread_mutex_lock pthread_mutex_unlock "\<lambda>m. m \<noteq> None" "\<lambda>m. True"
proof
  fix k k' :: "'a option" and t :: 'a
  show "pthread_mutex_lock t k = Some k' \<Longrightarrow> \<not> k \<noteq> None \<and> k' \<noteq> None \<and> True"
    by (cases k) auto
  show "\<not> k \<noteq> None \<Longrightarrow> pthread_mutex_lock t k \<noteq> None" by simp
  show "\<not> pthread_mutex_unlock t k \<noteq> None \<and> True" by simp
qed

interpretation spin: lock_iface pthread_spin_lock pthread_spin_unlock "\<lambda>b. b" "\<lambda>b. True"
  by unfold_locales (auto split: if_splits)

text \<open>A semaphore is a lock as long as its value never exceeds one, its initial value here.\<close>

interpretation sem: lock_iface sem_wait sem_post "\<lambda>v. v = 0" "\<lambda>v. v \<le> 1"
  by unfold_locales (auto split: if_splits)

section \<open>Threads that respect the lock\<close>

text \<open>
  \<open>R\<close> is the resource invariant of the data the lock protects, \<open>own t g\<close> the part of the globals
  that only thread \<open>t\<close> writes, \<open>LI\<close> the invariant at the head of a thread's endless loop, \<open>good\<close>
  what has to hold of a thread's variables at every moment. A heap argument is the part of the
  heap the thread owns: its private cells and, inside the critical section, the protected
  cells too. The environment of the thread appears only where it takes the lock: the protected
  data may then be anything that satisfies \<open>R\<close>.
\<close>

inductive safe_out :: "('t, 'l, 'g, 'c, 'k) prog \<Rightarrow> ('g \<Rightarrow> 'c heap \<Rightarrow> bool) \<Rightarrow> ('t \<Rightarrow> 'g \<Rightarrow> 'o) \<Rightarrow>
    ('l \<Rightarrow> bool) \<Rightarrow> ('t \<Rightarrow> 'l \<Rightarrow> 'o \<Rightarrow> 'c heap \<Rightarrow> bool) \<Rightarrow> ('t \<Rightarrow> bool \<Rightarrow> 'l \<Rightarrow> bool) \<Rightarrow> 't \<Rightarrow>
    'l \<Rightarrow> 'o \<Rightarrow> 'c heap \<Rightarrow> bool"
  and safe_in :: "('t, 'l, 'g, 'c, 'k) prog \<Rightarrow> ('g \<Rightarrow> 'c heap \<Rightarrow> bool) \<Rightarrow> ('t \<Rightarrow> 'g \<Rightarrow> 'o) \<Rightarrow>
    ('l \<Rightarrow> bool) \<Rightarrow> ('t \<Rightarrow> 'l \<Rightarrow> 'o \<Rightarrow> 'c heap \<Rightarrow> bool) \<Rightarrow> ('t \<Rightarrow> bool \<Rightarrow> 'l \<Rightarrow> bool) \<Rightarrow> 't \<Rightarrow>
    'l \<Rightarrow> 'g \<Rightarrow> 'c heap \<Rightarrow> bool"
  for P R own head LI good t where
  out_head: "good t False l \<Longrightarrow> head l \<Longrightarrow> LI t l n h \<Longrightarrow> safe_out P R own head LI good t l n h"
| out_act: "good t False l \<Longrightarrow> kind P l = KAct \<Longrightarrow>
     (\<And>c g. allowed c h \<Longrightarrow> exec P c l g h = Exit \<or>
        (\<exists>l' h'. exec P c l g h = Next l' g h' \<and> safe_out P R own head LI good t l' n h')) \<Longrightarrow>
     safe_out P R own head LI good t l n h"
| out_lock: "good t False l \<Longrightarrow> kind P l = KLock \<Longrightarrow>
     (\<And>g hR. own t g = n \<Longrightarrow> R g hR \<Longrightarrow> disj h hR \<Longrightarrow>
        safe_in P R own head LI good t (pop P l) g (h ++ hR)) \<Longrightarrow>
     safe_out P R own head LI good t l n h"
| in_act: "good t True l \<Longrightarrow> kind P l = KAct \<Longrightarrow>
     (\<And>c. allowed c h \<Longrightarrow> exec P c l g h = Exit \<or>
        (\<exists>l' g' h'. exec P c l g h = Next l' g' h' \<and> (\<forall>u. u \<noteq> t \<longrightarrow> own u g' = own u g) \<and>
           safe_in P R own head LI good t l' g' h')) \<Longrightarrow>
     safe_in P R own head LI good t l g h"
| in_unlock: "good t True l \<Longrightarrow> kind P l = KUnlock \<Longrightarrow> disj h1 hR \<Longrightarrow> h = h1 ++ hR \<Longrightarrow> R g hR \<Longrightarrow>
     safe_out P R own head LI good t (pop P l) (own t g) h1 \<Longrightarrow>
     safe_in P R own head LI good t l g h"

lemma safe_out_good: "safe_out P R own head LI good t l n h \<Longrightarrow> good t False l"
  by (erule safe_out.cases) auto

lemma safe_in_good: "safe_in P R own head LI good t l g h \<Longrightarrow> good t True l"
  by (erule safe_in.cases) auto

section \<open>Splitting the heap between the threads and the lock\<close>

definition split_heap :: "('t \<Rightarrow> 'c heap) \<Rightarrow> 'c heap \<Rightarrow> 'c heap \<Rightarrow> bool" where
  "split_heap hp hS h \<longleftrightarrow>
     (\<forall>a v. h a = Some v \<longleftrightarrow> hS a = Some v \<or> (\<exists>t. hp t a = Some v)) \<and>
     (\<forall>t. disj (hp t) hS) \<and> (\<forall>t u. t \<noteq> u \<longrightarrow> disj (hp t) (hp u))"

lemma split_heap_minus:
  assumes "split_heap hp hS h"
  shows "(h |` (- dom (hp t))) a = Some v \<longleftrightarrow> hS a = Some v \<or> (\<exists>u. u \<noteq> t \<and> hp u a = Some v)"
proof -
  have 1: "hp t a = None" if "hS a = Some v"
  proof -
    have "disj (hp t) hS" using assms by (simp add: split_heap_def)
    with that show ?thesis by (metis disjoint_iff domI domIff)
  qed
  have 2: "hp t a = None" if "u \<noteq> t" "hp u a = Some v" for u
  proof -
    have "disj (hp u) (hp t)" using assms that by (simp add: split_heap_def)
    with that show ?thesis by (metis disjoint_iff domI domIff)
  qed
  have "(h |` (- dom (hp t))) a = Some v \<longleftrightarrow>
      hp t a = None \<and> (hS a = Some v \<or> (\<exists>u. hp u a = Some v))"
    using assms by (auto simp: split_heap_def restrict_map_def split: if_splits)
  then show ?thesis using 1 2 by (metis option.distinct(1))
qed

lemma split_heap_change:
  assumes "split_heap hp hS h" and d: "disj h1' (h |` (- dom (hp t)))"
  shows "split_heap (hp(t := h1')) hS (h1' ++ h |` (- dom (hp t)))"
proof -
  let ?rest = "h |` (- dom (hp t))"
  note rest_iff = split_heap_minus [OF assms(1), of t]
  have notin: "a \<in> dom h1' \<Longrightarrow> ?rest a = None" for a using d by (metis disjoint_iff domIff)
  have "((h1' ++ ?rest) a = Some v) \<longleftrightarrow> hS a = Some v \<or> (\<exists>u. (hp(t := h1')) u a = Some v)" for a v
  proof (cases "?rest a")
    case None
    then have "hS a \<noteq> Some v" "\<forall>u. u \<noteq> t \<longrightarrow> hp u a \<noteq> Some v" using rest_iff [of a v] by auto
    with None show ?thesis by (auto simp: map_add_def)
  next
    case (Some w)
    then have "h1' a = None" using notin [of a] by (cases "h1' a") auto
    moreover have "(h1' ++ ?rest) a = Some v \<longleftrightarrow> ?rest a = Some v"
      using Some by (simp add: map_add_def)
    ultimately show ?thesis using rest_iff [of a v] by (metis fun_upd_apply option.distinct(1))
  qed
  moreover have "disj ((hp(t := h1')) u) hS" for u
  proof -
    have "disj h1' hS" using d rest_iff by (metis disjoint_iff domI domD)
    then show ?thesis using assms(1) by (simp add: split_heap_def)
  qed
  moreover have "disj ((hp(t := h1')) u) ((hp(t := h1')) w)" if "u \<noteq> w" for u w
  proof -
    have "disj h1' (hp x)" if "x \<noteq> t" for x using d rest_iff that by (metis disjoint_iff domI domD)
    then show ?thesis using assms(1) that by (auto simp: split_heap_def Int_commute)
  qed
  ultimately show ?thesis by (simp add: split_heap_def)
qed

lemma split_heap_rest:
  assumes "split_heap hp hS h"
  obtains rest where "h = hp t ++ rest" and "disj (hp t) rest"
    and "\<And>h1'. disj h1' rest \<Longrightarrow> split_heap (hp(t := h1')) hS (h1' ++ rest)"
proof -
  let ?rest = "h |` (- dom (hp t))"
  have sub: "\<And>a v. hp t a = Some v \<Longrightarrow> h a = Some v"
    using assms by (auto simp: split_heap_def)
  have 1: "h = hp t ++ ?rest"
  proof (rule ext)
    fix a
    show "h a = (hp t ++ ?rest) a"
      by (cases "hp t a") (auto simp: map_add_def restrict_map_def sub split: option.splits)
  qed
  have 2: "disj (hp t) ?rest" by (auto simp: restrict_map_def split: if_splits)
  show ?thesis by (rule that [OF 1 2 split_heap_change [OF assms]])
qed

text \<open>Taking the lock moves the protected cells to the thread, releasing it moves them back.\<close>

lemma split_heap_acquire:
  fixes hp :: "'t \<Rightarrow> 'c heap"
  assumes "split_heap hp hS h"
  shows "split_heap (hp(t := hp t ++ hS)) Map.empty h"
  unfolding split_heap_def
proof (intro conjI allI impI)
  fix a v
  have d: "disj (hp t) hS" using assms by (simp add: split_heap_def)
  have "(\<exists>u. (hp(t := hp t ++ hS)) u a = Some v) \<longleftrightarrow> hS a = Some v \<or> (\<exists>u. hp u a = Some v)"
    using d by (auto simp: map_add_Some_iff) (metis map_add_Some_iff map_add_comm)+
  then show "h a = Some v \<longleftrightarrow> Map.empty a = Some v \<or> (\<exists>u. (hp(t := hp t ++ hS)) u a = Some v)"
    using assms by (simp add: split_heap_def)
next
  fix u w :: 't
  have dS: "disj (hp x) hS" and dd: "x \<noteq> y \<Longrightarrow> disj (hp x) (hp y)" for x y
    using assms by (simp_all add: split_heap_def)
  show "disj ((hp(t := hp t ++ hS)) u) Map.empty" by simp
  show "disj ((hp(t := hp t ++ hS)) u) ((hp(t := hp t ++ hS)) w)" if "u \<noteq> w"
    using dd [OF that] dd [of u t] dd [of t w] dS [of u] dS [of w] that
    by (cases "u = t"; cases "w = t") auto
qed

lemma split_heap_release:
  fixes hp :: "'t \<Rightarrow> 'c heap"
  assumes "split_heap hp Map.empty h" and "hp t = h1 ++ hR" and "disj h1 hR"
  shows "split_heap (hp(t := h1)) hR h"
  unfolding split_heap_def
proof (intro conjI allI impI)
  fix a v
  have "hp t a = Some v \<longleftrightarrow> hR a = Some v \<or> h1 a = Some v"
    using assms(2,3) by (metis map_add_Some_iff map_add_comm)
  then have "hR a = Some v \<or> (\<exists>u. (hp(t := h1)) u a = Some v) \<longleftrightarrow> (\<exists>u. hp u a = Some v)"
    by (metis fun_upd_apply)
  then show "h a = Some v \<longleftrightarrow> hR a = Some v \<or> (\<exists>u. (hp(t := h1)) u a = Some v)"
    using assms(1) by (simp add: split_heap_def)
next
  fix u w :: 't
  have sub: "dom h1 \<subseteq> dom (hp t)" "dom hR \<subseteq> dom (hp t)" using assms(2) by auto
  have dd: "x \<noteq> y \<Longrightarrow> disj (hp x) (hp y)" for x y using assms(1) by (simp add: split_heap_def)
  show "disj ((hp(t := h1)) u) hR"
    using dd [of u t] sub assms(3) by (cases "u = t") (simp, simp, blast)
  show "disj ((hp(t := h1)) u) ((hp(t := h1)) w)" if "u \<noteq> w"
    using dd [OF that] sub that by (cases "u = t"; cases "w = t") (simp_all, blast+)
qed

section \<open>Safe threads make a safe system\<close>

text \<open>
  The first two laws say that a statement that succeeds on the cells a thread owns does the same
  when more cells exist; the third that a thread at the head of its loop can go round once more.
\<close>

locale lock_program = lock_iface acq rel locked lock_ok
  for acq :: "'t \<Rightarrow> 'k \<Rightarrow> 'k option"
    and rel :: "'t \<Rightarrow> 'k \<Rightarrow> 'k"
    and locked :: "'k \<Rightarrow> bool"
    and lock_ok :: "'k \<Rightarrow> bool" +
  fixes P :: "('t, 'l, 'g, 'c, 'k) prog"
    and R :: "'g \<Rightarrow> 'c heap \<Rightarrow> bool"
    and own :: "'t \<Rightarrow> 'g \<Rightarrow> 'o"
    and head :: "'l \<Rightarrow> bool"
    and LI :: "'t \<Rightarrow> 'l \<Rightarrow> 'o \<Rightarrow> 'c heap \<Rightarrow> bool"
    and good :: "'t \<Rightarrow> bool \<Rightarrow> 'l \<Rightarrow> bool"
  assumes P_acq: "Lock_Program.acq P = acq" and P_rel: "Lock_Program.rel P = rel"
    and frame: "exec P c l g h1 = Next l' g' h1' \<Longrightarrow> allowed c (h1 ++ h2) \<Longrightarrow> disj h1 h2 \<Longrightarrow>
      exec P c l g (h1 ++ h2) = Next l' g' (h1' ++ h2) \<and> disj h1' h2"
    and frame_exit: "exec P c l g h1 = Exit \<Longrightarrow> exec P c l g (h1 ++ h2) = Exit"
    and go_round: "good t False l \<Longrightarrow> head l \<Longrightarrow> LI t l n h \<Longrightarrow> kind P l = KAct \<and>
      (\<forall>c g. allowed c h \<longrightarrow> exec P c l g h = Exit \<or>
        (\<exists>l' h'. exec P c l g h = Next l' g h' \<and> safe_out P R own head LI good t l' n h'))"
begin

abbreviation out_ok :: "'t \<Rightarrow> 'l \<Rightarrow> 'o \<Rightarrow> 'c heap \<Rightarrow> bool" where
  "out_ok \<equiv> safe_out P R own head LI good"

abbreviation in_ok :: "'t \<Rightarrow> 'l \<Rightarrow> 'g \<Rightarrow> 'c heap \<Rightarrow> bool" where
  "in_ok \<equiv> safe_in P R own head LI good"

text \<open>The invariant: every thread is safe on its share of the heap, at most one is inside.\<close>

definition shares_ok :: "('t, 'l, 'g, 'c, 'k) sys \<Rightarrow> ('t \<Rightarrow> 'c heap) \<Rightarrow> 'c heap \<Rightarrow> bool" where
  "shares_ok s hp hS \<longleftrightarrow> split_heap hp hS (cells s) \<and>
     (if locked (lk s)
      then hS = Map.empty \<and> (\<exists>t. in_ok t (locals s t) (glob s) (hp t) \<and>
             (\<forall>u. u \<noteq> t \<longrightarrow> out_ok u (locals s u) (own u (glob s)) (hp u)))
      else R (glob s) hS \<and> (\<forall>u. out_ok u (locals s u) (own u (glob s)) (hp u)))"

definition lp_inv :: "('t, 'l, 'g, 'c, 'k) sys \<Rightarrow> bool" where
  "lp_inv s \<longleftrightarrow> (\<forall>f. st s \<noteq> Crashed f) \<and> lock_ok (lk s) \<and> (\<exists>hp hS. shares_ok s hp hS)"

lemma out_act_cases:
  assumes "out_ok t l n h" and "kind P l = KAct" and "allowed c h"
  shows "exec P c l g h = Exit \<or> (\<exists>l' h'. exec P c l g h = Next l' g h' \<and> out_ok t l' n h')"
  using assms go_round by (cases rule: safe_out.cases) auto

lemma out_lock_cases:
  assumes "out_ok t l n h" and "kind P l = KLock" and "own t g = n" and "R g hR" and "disj h hR"
  shows "in_ok t (pop P l) g (h ++ hR)"
  using assms go_round by (cases rule: safe_out.cases) auto

lemma out_not_unlock:
  assumes "out_ok t l n h"
  shows "kind P l \<noteq> KUnlock"
  using assms go_round by (cases rule: safe_out.cases) auto

lemma in_act_cases:
  assumes "in_ok t l g h" and "kind P l = KAct" and "allowed c h"
  shows "exec P c l g h = Exit \<or> (\<exists>l' g' h'. exec P c l g h = Next l' g' h' \<and>
      (\<forall>u. u \<noteq> t \<longrightarrow> own u g' = own u g) \<and> in_ok t l' g' h')"
  using assms by (cases rule: safe_in.cases) auto

lemma in_not_lock:
  assumes "in_ok t l g h"
  shows "kind P l \<noteq> KLock"
  using assms by (cases rule: safe_in.cases) auto

lemma in_unlock_cases:
  assumes "in_ok t l g h" and "kind P l = KUnlock"
  obtains h1 hR where "disj h1 hR" "h = h1 ++ hR" "R g hR" "out_ok t (pop P l) (own t g) h1"
  using assms by (cases rule: safe_in.cases) auto

lemma allowed_part: "allowed c (h1 ++ h2) \<Longrightarrow> allowed c h1"
  by (cases c) auto

text \<open>A statement of the thread inside the critical section.\<close>

lemma act_inside:
  assumes sh: "shares_ok s hp hS" and lkd: "locked (lk s)"
    and it: "in_ok t (locals s t) (glob s) (hp t)"
    and others: "\<forall>u. u \<noteq> t \<longrightarrow> out_ok u (locals s u) (own u (glob s)) (hp u)"
    and k: "kind P (locals s t) = KAct" and c: "allowed c (cells s)"
  shows "exec P c (locals s t) (glob s) (cells s) = Exit \<or>
    (\<exists>l' g' h' hp'. exec P c (locals s t) (glob s) (cells s) = Next l' g' h' \<and>
       shares_ok (s\<lparr>locals := (locals s)(t := l'), glob := g', cells := h'\<rparr>) hp' hS)"
proof -
  from sh have sp: "split_heap hp hS (cells s)" and hS: "hS = Map.empty"
    using lkd by (auto simp: shares_ok_def)
  obtain rest where rest: "cells s = hp t ++ rest" "disj (hp t) rest"
    "\<And>h1'. disj h1' rest \<Longrightarrow> split_heap (hp(t := h1')) hS (h1' ++ rest)"
    using split_heap_rest [OF sp, of t] by blast
  from c rest(1) have "allowed c (hp t)" using allowed_part by metis
  from in_act_cases [OF it k this] show ?thesis
  proof (elim disjE exE conjE)
    assume "exec P c (locals s t) (glob s) (hp t) = Exit"
    then show ?thesis using frame_exit rest(1) by metis
  next
    fix l' g' h1'
    assume e: "exec P c (locals s t) (glob s) (hp t) = Next l' g' h1'"
      and o: "\<forall>u. u \<noteq> t \<longrightarrow> own u g' = own u (glob s)" and i: "in_ok t l' g' h1'"
    from frame [OF e, of rest] c rest have
      e': "exec P c (locals s t) (glob s) (cells s) = Next l' g' (h1' ++ rest)" "disj h1' rest"
      by auto
    let ?hp = "hp(t := h1')"
    have "shares_ok (s\<lparr>locals := (locals s)(t := l'), glob := g', cells := h1' ++ rest\<rparr>) ?hp hS"
      unfolding shares_ok_def using rest(3) [OF e'(2)] lkd hS i o others
      by (auto intro!: exI [of _ t])
    with e' show ?thesis by blast
  qed
qed

text \<open>A statement of a thread outside; another thread may be inside.\<close>

lemma shares_ok_outside:
  assumes sh: "shares_ok s hp hS" and out: "out_ok t l' (own t (glob s)) h1'"
    and sp: "split_heap (hp(t := h1')) hS h'"
    and notin: "locked (lk s) \<Longrightarrow> in_ok u (locals s u) (glob s) (hp u) \<and> u \<noteq> t \<and>
      (\<forall>w. w \<noteq> u \<longrightarrow> out_ok w (locals s w) (own w (glob s)) (hp w))"
  shows "shares_ok (s\<lparr>locals := (locals s)(t := l'), glob := glob s, cells := h'\<rparr>) (hp(t := h1')) hS"
  using assms by (auto simp: shares_ok_def intro!: exI [of _ u])

lemma act_outside:
  assumes sh: "shares_ok s hp hS"
    and ot: "out_ok t (locals s t) (own t (glob s)) (hp t)"
    and notin: "locked (lk s) \<Longrightarrow> in_ok u (locals s u) (glob s) (hp u) \<and> u \<noteq> t \<and>
      (\<forall>w. w \<noteq> u \<longrightarrow> out_ok w (locals s w) (own w (glob s)) (hp w))"
    and k: "kind P (locals s t) = KAct" and c: "allowed c (cells s)"
  shows "exec P c (locals s t) (glob s) (cells s) = Exit \<or>
    (\<exists>l' g' h' hp'. exec P c (locals s t) (glob s) (cells s) = Next l' g' h' \<and>
       shares_ok (s\<lparr>locals := (locals s)(t := l'), glob := g', cells := h'\<rparr>) hp' hS)"
proof -
  from sh have sp: "split_heap hp hS (cells s)" by (simp add: shares_ok_def)
  obtain rest where rest: "cells s = hp t ++ rest" "disj (hp t) rest"
    "\<And>h1'. disj h1' rest \<Longrightarrow> split_heap (hp(t := h1')) hS (h1' ++ rest)"
    using split_heap_rest [OF sp, of t] by blast
  from c rest(1) have "allowed c (hp t)" using allowed_part by metis
  from out_act_cases [OF ot k this, of "glob s"] show ?thesis
  proof (elim disjE exE conjE)
    assume "exec P c (locals s t) (glob s) (hp t) = Exit"
    then show ?thesis using frame_exit rest(1) by metis
  next
    fix l' h1'
    assume e: "exec P c (locals s t) (glob s) (hp t) = Next l' (glob s) h1'"
      and i: "out_ok t l' (own t (glob s)) h1'"
    from frame [OF e, of rest] c rest
    have e': "exec P c (locals s t) (glob s) (cells s) = Next l' (glob s) (h1' ++ rest)"
      "disj h1' rest" by auto
    from shares_ok_outside [OF sh i rest(3) [OF e'(2)] notin] e'(1) show ?thesis by blast
  qed
qed

lemma act_step_ok:
  assumes "shares_ok s hp hS" and "kind P (locals s t) = KAct" and "allowed c (cells s)"
  shows "exec P c (locals s t) (glob s) (cells s) = Exit \<or>
    (\<exists>l' g' h' hp'. exec P c (locals s t) (glob s) (cells s) = Next l' g' h' \<and>
       shares_ok (s\<lparr>locals := (locals s)(t := l'), glob := g', cells := h'\<rparr>) hp' hS)"
proof (cases "locked (lk s)")
  case True
  with assms(1) obtain u where u: "in_ok u (locals s u) (glob s) (hp u)"
    "\<forall>w. w \<noteq> u \<longrightarrow> out_ok w (locals s w) (own w (glob s)) (hp w)" by (auto simp: shares_ok_def)
  show ?thesis
  proof (cases "u = t")
    case True
    with act_inside [OF assms(1) \<open>locked (lk s)\<close>] u assms(2,3) show ?thesis by blast
  next
    case False
    with u have "out_ok t (locals s t) (own t (glob s)) (hp t)" by simp
    from act_outside [OF assms(1) this _ assms(2,3), of u] u False show ?thesis by metis
  qed
next
  case False
  with assms(1) have "out_ok t (locals s t) (own t (glob s)) (hp t)" by (simp add: shares_ok_def)
  from act_outside [OF assms(1) this _ assms(2,3)] False show ?thesis by metis
qed

lemma lock_step_ok:
  assumes "shares_ok s hp hS" and "\<not> locked (lk s)" and "locked k'"
    and k: "kind P (locals s t) = KLock"
  shows "shares_ok (s\<lparr>locals := (locals s)(t := pop P (locals s t)), lk := k'\<rparr>)
           (hp(t := hp t ++ hS)) Map.empty"
proof -
  from assms(1,2) have sp: "split_heap hp hS (cells s)" and R: "R (glob s) hS"
    and o: "\<forall>u. out_ok u (locals s u) (own u (glob s)) (hp u)" by (auto simp: shares_ok_def)
  from sp have "disj (hp t) hS" by (simp add: split_heap_def)
  with out_lock_cases [OF o [rule_format] k refl R] have
    "in_ok t (pop P (locals s t)) (glob s) (hp t ++ hS)" .
  with split_heap_acquire [OF sp] o assms(3) show ?thesis
    by (auto simp: shares_ok_def intro!: exI [of _ t])
qed

lemma unlock_step_ok:
  assumes sh: "shares_ok s hp hS" and nl: "\<not> locked k'"
    and k: "kind P (locals s t) = KUnlock"
  shows "locked (lk s) \<and>
    (\<exists>hp' hS'. shares_ok (s\<lparr>locals := (locals s)(t := pop P (locals s t)), lk := k'\<rparr>) hp' hS')"
proof -
  have lkd: "locked (lk s)" and t: "in_ok t (locals s t) (glob s) (hp t)"
    and others: "\<forall>u. u \<noteq> t \<longrightarrow> out_ok u (locals s u) (own u (glob s)) (hp u)"
    and sp: "split_heap hp Map.empty (cells s)"
    using sh k out_not_unlock unfolding shares_ok_def by (metis (full_types))+
  from in_unlock_cases [OF t k] obtain h1 hR where
    h: "disj h1 hR" "hp t = h1 ++ hR" "R (glob s) hR" "out_ok t (pop P (locals s t)) (own t (glob s)) h1" .
  have "shares_ok (s\<lparr>locals := (locals s)(t := pop P (locals s t)), lk := k'\<rparr>) (hp(t := h1)) hR"
    using split_heap_release [OF sp h(2,1)] h(3,4) others nl by (auto simp: shares_ok_def)
  with lkd show ?thesis by blast
qed

theorem lp_step_inv:
  assumes "lp_step P s s'" and "lp_inv s"
  shows "lp_inv s'"
proof -
  from assms(2) obtain hp hS where sh: "shares_ok s hp hS" and ok: "lock_ok (lk s)"
    by (auto simp: lp_inv_def)
  from assms(1) show ?thesis
  proof cases
    case (act t c l' g' h')
    with act_step_ok [OF sh act(3,4)] ok show ?thesis by (auto simp: lp_inv_def)
  next
    case (quit t c)
    then have "shares_ok s' hp hS" using sh by (simp add: shares_ok_def)
    with quit ok show ?thesis by (auto simp: lp_inv_def)
  next
    case (crash t c f)
    with act_step_ok [OF sh crash(3,4)] show ?thesis by auto
  next
    case (lock t k')
    then have "\<not> locked (lk s)" "locked k'" "lock_ok k'"
      using acq_takes [OF ok] P_acq by metis+
    with lock_step_ok [OF sh this(1,2) lock(3)] lock(1,2) show ?thesis by (auto simp: lp_inv_def)
  next
    case (unlock t)
    have "locked (lk s)" using sh unlock(3) out_not_unlock unfolding shares_ok_def by (metis (full_types))
    then have r: "\<not> locked (rel t (lk s))" "lock_ok (rel t (lk s))" using rel_frees [OF ok] by auto
    from unlock_step_ok [OF sh r(1) unlock(3)] r(2) unlock(1,2) P_rel show ?thesis
      by (auto simp: lp_inv_def)
  qed
qed

theorem lp_reach_inv: "lp_reach P s0 s \<Longrightarrow> lp_inv s0 \<Longrightarrow> lp_inv s"
  by (induction rule: lp_reach.induct) (auto intro: lp_step_inv)

text \<open>What a client of the locale concludes.\<close>

lemma inv_not_crashed: "lp_inv s \<Longrightarrow> st s \<noteq> Crashed f"
  by (simp add: lp_inv_def)

lemma inv_good: "lp_inv s \<Longrightarrow> \<exists>b. good t b (locals s t)"
  unfolding lp_inv_def shares_ok_def by (metis safe_in_good safe_out_good)

lemma inv_free: "lp_inv s \<Longrightarrow> \<not> locked (lk s) \<Longrightarrow> good t False (locals s t)"
  unfolding lp_inv_def shares_ok_def by (metis safe_out_good)

lemma inv_resource: "lp_inv s \<Longrightarrow> \<not> locked (lk s) \<Longrightarrow> \<exists>hS. hS \<subseteq>\<^sub>m cells s \<and> R (glob s) hS"
  unfolding lp_inv_def shares_ok_def split_heap_def map_le_def by (metis (full_types) domD)

theorem inv_progress:
  assumes "lp_inv s" and "st s = Running"
  shows "\<exists>s'. lp_step P s s'"
proof -
  from assms(1) obtain hp hS where sh: "shares_ok s hp hS" and ok: "lock_ok (lk s)"
    by (auto simp: lp_inv_def)
  obtain t where t: "kind P (locals s t) = KLock \<Longrightarrow> \<not> locked (lk s)"
    using sh in_not_lock unfolding shares_ok_def by (metis (full_types))
  show ?thesis
  proof (cases "kind P (locals s t)")
    case KAct
    have c: "allowed ChFail (cells s)" by simp
    from act_step_ok [OF sh KAct c] show ?thesis
      using lp_step.act [OF assms(2) KAct c] lp_step.quit [OF assms(2) KAct c] by metis
  next
    case KLock
    with t acq_ready [OF ok] P_acq obtain k' where "Lock_Program.acq P t (lk s) = Some k'" by fastforce
    with KLock assms(2) show ?thesis by (blast intro: lp_step.lock)
  next
    case KUnlock
    with assms(2) show ?thesis by (blast intro: lp_step.unlock)
  qed
qed

text \<open>
  While the lock is taken exactly one thread is inside, and that thread can always execute its next
  statement: it never waits for another one.
\<close>

lemma inv_holder:
  assumes "lp_inv s" and "locked (lk s)"
  obtains t where "good t True (locals s t)" and "\<And>u. u \<noteq> t \<Longrightarrow> good u False (locals s u)"
    and "st s = Running \<Longrightarrow> \<exists>s'. do_step P (t, ChFail) s = Some s'"
proof -
  from assms obtain hp hS where sh: "shares_ok s hp hS" by (auto simp: lp_inv_def)
  with assms(2) obtain t where t: "in_ok t (locals s t) (glob s) (hp t)"
    and u: "\<And>u. u \<noteq> t \<Longrightarrow> out_ok u (locals s u) (own u (glob s)) (hp u)"
    by (auto simp: shares_ok_def)
  have "\<exists>s'. do_step P (t, ChFail) s = Some s'" if "st s = Running"
    using act_step_ok [OF sh, of t ChFail] in_not_lock [OF t] that
    by (cases "kind P (locals s t)") auto
  with that [OF safe_in_good [OF t] safe_out_good [OF u]] show ?thesis by blast
qed

lemma inv_free_step:
  assumes "lp_inv s" and "\<not> locked (lk s)" and "st s = Running"
  shows "\<exists>s'. do_step P (t, ChFail) s = Some s'"
proof -
  from assms obtain hp hS where sh: "shares_ok s hp hS" and ok: "lock_ok (lk s)" by (auto simp: lp_inv_def)
  with act_step_ok [OF sh, of t ChFail] acq_ready [OF ok assms(2), of t] P_acq assms(3) show ?thesis
    by (cases "kind P (locals s t)") auto
qed

text \<open>At most one thread is inside: the one that can be the next to release the lock.\<close>

lemma inv_unlock_unique:
  assumes "lp_inv s" and "kind P (locals s t) = KUnlock" and "kind P (locals s u) = KUnlock"
  shows "t = u"
  using assms out_not_unlock unfolding lp_inv_def shares_ok_def by (metis (full_types))

lemma inv_initially:
  assumes "st s = Running" and "lock_ok (lk s)" and "\<not> locked (lk s)" and "cells s = Map.empty"
    and "R (glob s) Map.empty" and "\<And>t. out_ok t (locals s t) (own t (glob s)) Map.empty"
  shows "lp_inv s"
proof -
  have "shares_ok s (\<lambda>t. Map.empty) Map.empty"
    using assms by (auto simp: shares_ok_def split_heap_def)
  with assms show ?thesis by (auto simp: lp_inv_def)
qed

end

end
