(* ===== verification/Queue_Code.thy ===== *)
theory Queue_Code
  imports Lock_Program
begin

text \<open>
  The linked-list queue of \<open>semestr2/Task2\<close>: its node and its header as records, the C statements
  its functions are made of, and their meaning. The functions of the several source files
  are lists of these statements, in the order of the source; a thread executes one
  statement per step. A statement touches at most one node, and \<open>x++\<close> of a shared field is two
  steps, a read and a write, so that an unsynchronised interleaving can lose an update.
  \<open>int\<close> and \<open>long\<close> are words of 32 and 64 bits and wrap around. Output on the terminal is left
  out, except for the reader's error message and the statistics line, which are kept in logs.
\<close>

section \<open>Data\<close>

text \<open>\<open>qnode_t\<close> and \<open>queue_t\<close> of \<open>queue.h\<close>; the handle of the monitor thread is left out.\<close>

record qnode_t =
  nval :: c_int
  nnext :: ptr

record queue_t =
  qfirst :: ptr
  qlast :: ptr
  qcount :: c_int
  qmax :: c_int
  add_attempts :: c_long
  get_attempts :: c_long
  add_count :: c_long
  get_count :: c_long

datatype stat = Add_attempts | Get_attempts | Add_count | Get_count

fun get_stat :: "stat \<Rightarrow> queue_t \<Rightarrow> c_long" where
  "get_stat Add_attempts q = add_attempts q"
| "get_stat Get_attempts q = get_attempts q"
| "get_stat Add_count q = add_count q"
| "get_stat Get_count q = get_count q"

fun set_stat :: "stat \<Rightarrow> c_long \<Rightarrow> queue_t \<Rightarrow> queue_t" where
  "set_stat Add_attempts v q = q\<lparr>add_attempts := v\<rparr>"
| "set_stat Get_attempts v q = q\<lparr>get_attempts := v\<rparr>"
| "set_stat Add_count v q = q\<lparr>add_count := v\<rparr>"
| "set_stat Get_count v q = q\<lparr>get_count := v\<rparr>"

section \<open>Statements\<close>

text \<open>The threads of the programs that use the queue.\<close>

datatype thread = Writer | Reader | Monitor

text \<open>
  The statements of \<open>queue-condvar.c\<close> on its condition variable and its flag; the meaning of these
  is in the theory of that file. A thread that waits names itself.
\<close>

datatype event = OK | NOK

datatype cond_stmt =
    While_add_wait thread \<comment> \<open>\<open>while (q->count == q->max_count || shared_data == NOK)\<close> wait\<close>
  | While_get_wait thread \<comment> \<open>\<open>while (q->count == 0 || shared_data == OK)\<close> wait\<close>
  | Wait_enter thread \<comment> \<open>\<open>pthread_cond_wait\<close>, first part: becomes a waiter\<close>
  | Wait_blocked thread \<comment> \<open>\<open>pthread_cond_wait\<close>, second part: until it is signalled\<close>
  | Set_shared event
  | Signal

datatype stmt =
    Malloc_new \<comment> \<open>\<open>new = malloc(sizeof(qnode_t)); if (!new) abort();\<close>\<close>
  | New_val \<comment> \<open>\<open>new->val = val;\<close>\<close>
  | New_next \<comment> \<open>\<open>new->next = NULL;\<close>\<close>
  | Lock | Unlock \<comment> \<open>the synchronisation primitive of the file\<close>
  | Usleep
  | Load_stat stat | Store_stat stat \<comment> \<open>the two halves of \<open>q->add_count++;\<close> and its like\<close>
  | Assert_le_max \<comment> \<open>\<open>assert(q->count <= q->max_count);\<close>\<close>
  | Assert_ge_0 \<comment> \<open>\<open>assert(q->count >= 0);\<close>\<close>
  | If_full "stmt list" \<comment> \<open>\<open>if (q->count == q->max_count) {...}\<close>\<close>
  | If_empty "stmt list" \<comment> \<open>\<open>if (q->count == 0) {...}\<close>\<close>
  | If_no_first "stmt list" "stmt list" \<comment> \<open>\<open>if (!q->first) ... else ...\<close>\<close>
  | Last_new | First_last \<comment> \<open>\<open>q->first = q->last = new;\<close>\<close>
  | Last_next_new \<comment> \<open>\<open>q->last->next = new;\<close>\<close>
  | Last_advance \<comment> \<open>\<open>q->last = q->last->next;\<close>\<close>
  | Load_count | Store_count_inc | Store_count_dec \<comment> \<open>the halves of \<open>q->count++\<close> and \<open>q->count--\<close>\<close>
  | Tmp_first \<comment> \<open>\<open>tmp = q->first;\<close>\<close>
  | Val_tmp \<comment> \<open>\<open>*val = tmp->val;\<close>\<close>
  | First_advance \<comment> \<open>\<open>q->first = q->first->next;\<close>\<close>
  | Free_new | Free_tmp
  | Return c_int
  | Print_stats
  | Call_add | Call_get | Call_print_stats
  | Val_init \<comment> \<open>\<open>int val = -1;\<close>\<close>
  | If_not_ok_continue \<comment> \<open>\<open>if (!ok) continue;\<close>\<close>
  | Inc_i \<comment> \<open>\<open>i++;\<close>\<close>
  | Check_expected \<comment> \<open>\<open>if (expected != val) printf("ERROR...");\<close>\<close>
  | Set_expected \<comment> \<open>\<open>expected = val + 1;\<close>\<close>
  | Cond cond_stmt

text \<open>
  A thread: the statements left of the current function, those of the caller, the body of the
  thread's endless loop, the functions it is linked with, and its variables.
\<close>

record tlocal =
  code :: "stmt list"
  ret_to :: "stmt list"
  body :: "stmt list"
  fn_add :: "stmt list"
  fn_get :: "stmt list"
  fn_print :: "stmt list"
  v_arg :: c_int
  v_ok :: c_int
  v_val :: c_int
  v_i :: c_int
  v_expected :: c_int
  p_new :: ptr
  p_tmp :: ptr
  r_count :: c_int
  r_stat :: c_long
  errors :: "(c_int \<times> c_int) list"
  stats_log :: "(c_int \<times> c_long \<times> c_long \<times> c_long \<times> c_long \<times> c_long \<times> c_long) list"

type_synonym q_outcome = "(tlocal, queue_t, qnode_t) outcome"

text \<open>\<open>queue_print_stats\<close>: the line it prints.\<close>

definition stats_line :: "queue_t \<Rightarrow> c_int \<times> c_long \<times> c_long \<times> c_long \<times> c_long \<times> c_long \<times> c_long" where
  "stats_line q = (qcount q, add_attempts q, get_attempts q, add_attempts q - get_attempts q,
     add_count q, get_count q, add_count q - get_count q)"

section \<open>Meaning of the statements\<close>

definition with_cell :: "qnode_t heap \<Rightarrow> ptr \<Rightarrow> (qnode_t \<Rightarrow> q_outcome) \<Rightarrow> q_outcome" where
  "with_cell h p f = (case load h p of Inl e \<Rightarrow> Fault e | Inr c \<Rightarrow> f c)"

definition with_heap :: "fault + qnode_t heap \<Rightarrow> (qnode_t heap \<Rightarrow> q_outcome) \<Rightarrow> q_outcome" where
  "with_heap r f = (case r of Inl e \<Rightarrow> Fault e | Inr h \<Rightarrow> f h)"

text \<open>\<open>l\<close> is the thread after the statement was taken off its code.\<close>

fun exec_stmt :: "qnode_t choice \<Rightarrow> stmt \<Rightarrow> tlocal \<Rightarrow> queue_t \<Rightarrow> qnode_t heap \<Rightarrow> q_outcome" where
  "exec_stmt c Malloc_new l q h =
     (case c of ChAlloc a junk \<Rightarrow> Next (l\<lparr>p_new := Some a\<rparr>) q (h(a \<mapsto> junk)) | ChFail \<Rightarrow> Exit)"
| "exec_stmt c New_val l q h = with_heap (store h (p_new l) (\<lambda>n. n\<lparr>nval := v_arg l\<rparr>)) (Next l q)"
| "exec_stmt c New_next l q h = with_heap (store h (p_new l) (\<lambda>n. n\<lparr>nnext := None\<rparr>)) (Next l q)"
| "exec_stmt c Lock l q h = Next l q h"
| "exec_stmt c Unlock l q h = Next l q h"
| "exec_stmt c Usleep l q h = Next l q h"
| "exec_stmt c (Load_stat x) l q h = Next (l\<lparr>r_stat := get_stat x q\<rparr>) q h"
| "exec_stmt c (Store_stat x) l q h = Next l (set_stat x (r_stat l + 1) q) h"
| "exec_stmt c Assert_le_max l q h =
     (if qcount q <=s qmax q then Next l q h else Fault AssertFailed)"
| "exec_stmt c Assert_ge_0 l q h = (if 0 <=s qcount q then Next l q h else Fault AssertFailed)"
| "exec_stmt c (If_full b) l q h =
     Next (if qcount q = qmax q then l\<lparr>code := b @ code l\<rparr> else l) q h"
| "exec_stmt c (If_empty b) l q h = Next (if qcount q = 0 then l\<lparr>code := b @ code l\<rparr> else l) q h"
| "exec_stmt c (If_no_first b1 b2) l q h =
     Next (l\<lparr>code := (if qfirst q = None then b1 else b2) @ code l\<rparr>) q h"
| "exec_stmt c Last_new l q h = Next l (q\<lparr>qlast := p_new l\<rparr>) h"
| "exec_stmt c First_last l q h = Next l (q\<lparr>qfirst := p_new l\<rparr>) h"
| "exec_stmt c Last_next_new l q h =
     with_heap (store h (qlast q) (\<lambda>n. n\<lparr>nnext := p_new l\<rparr>)) (Next l q)"
| "exec_stmt c Last_advance l q h =
     with_cell h (qlast q) (\<lambda>n. Next l (q\<lparr>qlast := nnext n\<rparr>) h)"
| "exec_stmt c Load_count l q h = Next (l\<lparr>r_count := qcount q\<rparr>) q h"
| "exec_stmt c Store_count_inc l q h = Next l (q\<lparr>qcount := r_count l + 1\<rparr>) h"
| "exec_stmt c Store_count_dec l q h = Next l (q\<lparr>qcount := r_count l - 1\<rparr>) h"
| "exec_stmt c Tmp_first l q h = Next (l\<lparr>p_tmp := qfirst q\<rparr>) q h"
| "exec_stmt c Val_tmp l q h = with_cell h (p_tmp l) (\<lambda>n. Next (l\<lparr>v_val := nval n\<rparr>) q h)"
| "exec_stmt c First_advance l q h =
     with_cell h (qfirst q) (\<lambda>n. Next l (q\<lparr>qfirst := nnext n\<rparr>) h)"
| "exec_stmt c Free_new l q h = with_heap (free_cell h (p_new l)) (Next l q)"
| "exec_stmt c Free_tmp l q h = with_heap (free_cell h (p_tmp l)) (Next l q)"
| "exec_stmt c (Return v) l q h = Next (l\<lparr>v_ok := v, code := ret_to l\<rparr>) q h"
| "exec_stmt c Print_stats l q h = Next (l\<lparr>stats_log := stats_log l @ [stats_line q]\<rparr>) q h"
| "exec_stmt c Call_add l q h = Next (l\<lparr>v_arg := v_i l, ret_to := code l, code := fn_add l\<rparr>) q h"
| "exec_stmt c Call_get l q h = Next (l\<lparr>ret_to := code l, code := fn_get l\<rparr>) q h"
| "exec_stmt c Call_print_stats l q h = Next (l\<lparr>ret_to := code l, code := fn_print l\<rparr>) q h"
| "exec_stmt c Val_init l q h = Next (l\<lparr>v_val := -1\<rparr>) q h"
| "exec_stmt c If_not_ok_continue l q h = Next (if v_ok l = 0 then l\<lparr>code := []\<rparr> else l) q h"
| "exec_stmt c Inc_i l q h = Next (l\<lparr>v_i := v_i l + 1\<rparr>) q h"
| "exec_stmt c Check_expected l q h =
     Next (if v_expected l \<noteq> v_val l then l\<lparr>errors := errors l @ [(v_val l, v_expected l)]\<rparr> else l) q h"
| "exec_stmt c Set_expected l q h = Next (l\<lparr>v_expected := v_val l + 1\<rparr>) q h"
| "exec_stmt c (Cond x) l q h = Next l q h"

text \<open>One step of a thread; at the end of the loop body the loop starts again.\<close>

definition q_exec :: "qnode_t choice \<Rightarrow> tlocal \<Rightarrow> queue_t \<Rightarrow> qnode_t heap \<Rightarrow> q_outcome" where
  "q_exec c l q h = (case code l of [] \<Rightarrow> Next (l\<lparr>code := body l\<rparr>) q h
     | s # k \<Rightarrow> exec_stmt c s (l\<lparr>code := k\<rparr>) q h)"

definition q_kind :: "tlocal \<Rightarrow> opkind" where
  "q_kind l = (case code l of [] \<Rightarrow> KAct
     | s # k \<Rightarrow> if s = Lock then KLock else if s = Unlock then KUnlock else KAct)"

definition q_pop :: "tlocal \<Rightarrow> tlocal" where
  "q_pop l = l\<lparr>code := tl (code l)\<rparr>"

definition q_prog :: "('t \<Rightarrow> 'k \<Rightarrow> 'k option) \<Rightarrow> ('t \<Rightarrow> 'k \<Rightarrow> 'k) \<Rightarrow>
    ('t, tlocal, queue_t, qnode_t, 'k) prog" where
  "q_prog a r = \<lparr>kind = q_kind, pop = q_pop, exec = q_exec, acq = a, rel = r\<rparr>"

section \<open>Frame\<close>

lemma with_cell_Next:
  "with_cell h p f = Next l' q' h' \<longleftrightarrow> (\<exists>a n. p = Some a \<and> h a = Some n \<and> f n = Next l' q' h')"
proof -
  have "with_cell h p f = Next l' q' h' \<longleftrightarrow> (\<exists>n. load h p = Inr n \<and> f n = Next l' q' h')"
    unfolding with_cell_def by (cases "load h p") auto
  then show ?thesis by auto
qed

lemma with_heap_Next: "with_heap r f = Next l' q' h' \<longleftrightarrow> (\<exists>h. r = Inr h \<and> f h = Next l' q' h')"
  unfolding with_heap_def by (cases r) auto

lemma with_not_Exit [simp]:
  "(\<And>n. f n \<noteq> Exit) \<Longrightarrow> with_cell h p f \<noteq> Exit" "(\<And>h. g h \<noteq> Exit) \<Longrightarrow> with_heap r g \<noteq> Exit"
  by (auto simp: with_cell_def with_heap_def split: sum.splits)

lemma with_cell_Some [simp]: "h a = Some n \<Longrightarrow> with_cell h (Some a) f = f n"
  by (simp add: with_cell_def)

lemma with_heap_Inr [simp]: "with_heap (Inr h) f = f h"
  by (simp add: with_heap_def)

lemma exec_stmt_frame:
  assumes "exec_stmt c s l q h1 = Next l' q' h1'" and "allowed c (h1 ++ h2)" and d: "disj h1 h2"
  shows "exec_stmt c s l q (h1 ++ h2) = Next l' q' (h1' ++ h2) \<and> disj h1' h2"
proof (cases s)
  case Malloc_new
  show ?thesis
  proof (cases c)
    case (ChAlloc a junk)
    with assms(2) have "a \<notin> dom h2" by auto
    then have "(h1 ++ h2)(a \<mapsto> junk) = h1(a \<mapsto> junk) ++ h2" and "disj (h1(a \<mapsto> junk)) h2"
      using d by (simp_all add: map_add_upd_left_disj)
    with assms(1) Malloc_new ChAlloc show ?thesis by simp
  qed (use assms Malloc_new in simp)
qed (use assms in \<open>auto simp: with_heap_Next with_cell_Next map_add_disj_left
       dest!: store_frame [OF d] free_frame [OF d] split: if_splits\<close>)

lemma exec_stmt_frame_exit: "exec_stmt c s l q h1 = Exit \<Longrightarrow> exec_stmt c s l q (h1 ++ h2) = Exit"
  by (cases s) (auto split: choice.splits if_splits)

lemma q_exec_frame:
  "q_exec c l q h1 = Next l' q' h1' \<Longrightarrow> allowed c (h1 ++ h2) \<Longrightarrow> disj h1 h2 \<Longrightarrow>
   q_exec c l q (h1 ++ h2) = Next l' q' (h1' ++ h2) \<and> disj h1' h2"
  unfolding q_exec_def using exec_stmt_frame by (auto split: list.splits)

lemma q_exec_frame_exit: "q_exec c l q h1 = Exit \<Longrightarrow> q_exec c l q (h1 ++ h2) = Exit"
  unfolding q_exec_def using exec_stmt_frame_exit by (auto split: list.splits)

end
