(* ===== verification/Queue_Inv.thy ===== *)
theory Queue_Inv
  imports Queue_Code
begin

text \<open>
  The representation invariant of the linked-list queue, the abstract queue it represents, and
  the execution of a function on its own: \<open>run_call\<close> runs a call to its end.
\<close>

section \<open>The represented list\<close>

text \<open>\<open>qlist h p xs\<close>: from \<open>p\<close> the heap has the nodes \<open>xs\<close>, each an address and its value.\<close>

fun qlist :: "qnode_t heap \<Rightarrow> ptr \<Rightarrow> (addr \<times> c_int) list \<Rightarrow> bool" where
  "qlist h p [] \<longleftrightarrow> p = None"
| "qlist h p ((a, v) # xs) \<longleftrightarrow> p = Some a \<and> (\<exists>n. h a = Some \<lparr>nval = v, nnext = n\<rparr> \<and> qlist h n xs)"

definition queue_ok :: "queue_t \<Rightarrow> qnode_t heap \<Rightarrow> (addr \<times> c_int) list \<Rightarrow> bool" where
  "queue_ok q h xs \<longleftrightarrow> qlist h (qfirst q) xs \<and> dom h = fst ` set xs \<and> distinct (map fst xs) \<and>
     (xs \<noteq> [] \<longrightarrow> qlast q = Some (fst (last xs))) \<and>
     qcount q = of_nat (length xs) \<and> length xs \<le> unat (qmax q) \<and> unat (qmax q) < 2 ^ 31"

lemma qlist_upd [simp]: "a \<notin> fst ` set xs \<Longrightarrow> qlist (h(a := c)) p xs \<longleftrightarrow> qlist h p xs"
  by (induction h p xs rule: qlist.induct) auto

lemma qlist_link:
  assumes "qlist h p (ys @ [(b, w)])" and "distinct (map fst (ys @ [(b, w)]))"
    and "a \<notin> fst ` set (ys @ [(b, w)])" and "h' = h(a \<mapsto> \<lparr>nval = v, nnext = None\<rparr>, b \<mapsto> \<lparr>nval = w, nnext = Some a\<rparr>)"
  shows "qlist h' p (ys @ [(b, w), (a, v)])"
  using assms by (induction ys arbitrary: p) auto

lemma qlist_last: "qlist h p (ys @ [(b, w)]) \<Longrightarrow> h b = Some \<lparr>nval = w, nnext = None\<rparr>"
  by (induction ys arbitrary: p) auto

lemma qlist_unique: "qlist h p xs \<Longrightarrow> qlist h p ys \<Longrightarrow> xs = ys"
proof (induction xs arbitrary: p ys)
  case Nil
  then show ?case by (cases ys) auto
next
  case (Cons x xs)
  then show ?case by (cases ys; cases x) auto
qed

section \<open>Facts the functions rely on\<close>

lemma queue_ok_bound: "queue_ok q h xs \<Longrightarrow> length xs < 2 ^ 31"
  by (simp add: queue_ok_def)

lemma queue_ok_full: "queue_ok q h xs \<Longrightarrow> qcount q = qmax q \<longleftrightarrow> length xs = unat (qmax q)"
  using of_nat_c_int_eq [of "length xs" "unat (qmax q)"] by (auto simp: queue_ok_def)

lemma queue_ok_empty: "queue_ok q h xs \<Longrightarrow> qcount q = 0 \<longleftrightarrow> xs = []"
  using of_nat_c_int_0 [of "length xs"] by (auto simp: queue_ok_def)

lemma queue_ok_le_max: "queue_ok q h xs \<Longrightarrow> qcount q <=s qmax q"
  using of_nat_c_int_sle [of "length xs" "unat (qmax q)"] by (auto simp: queue_ok_def)

lemma queue_ok_ge_0: "queue_ok q h xs \<Longrightarrow> 0 <=s qcount q"
  using c_int_nonneg [of "length xs"] by (auto simp: queue_ok_def)

lemma queue_ok_first: "queue_ok q h xs \<Longrightarrow> qfirst q = None \<longleftrightarrow> xs = []"
  by (cases xs) (auto simp: queue_ok_def)

lemmas queue_ok_facts =
  queue_ok_full queue_ok_empty queue_ok_le_max queue_ok_ge_0 queue_ok_first

lemma queue_ok_last:
  assumes "queue_ok q h xs" and "xs \<noteq> []"
  obtains b w ys where "xs = ys @ [(b, w)]" "qlast q = Some b" "h b = Some \<lparr>nval = w, nnext = None\<rparr>"
proof -
  obtain b w where bw: "last xs = (b, w)" by force
  with assms(2) have xs: "xs = butlast xs @ [(b, w)]" by (metis append_butlast_last_id)
  with assms bw have "qlast q = Some b" "h b = Some \<lparr>nval = w, nnext = None\<rparr>"
    using qlist_last [of h "qfirst q" "butlast xs" b w] by (auto simp: queue_ok_def)
  with xs show ?thesis by (rule that)
qed

text \<open>Linking a new node at the end, and taking the first node out.\<close>

lemma queue_ok_link_first:
  assumes "queue_ok q h []" and "h' = h(a \<mapsto> \<lparr>nval = v, nnext = None\<rparr>)" and "unat (qmax q) \<noteq> 0"
    and "qfirst q' = Some a" "qlast q' = Some a" "qcount q' = qcount q + 1" "qmax q' = qmax q"
  shows "queue_ok q' h' [(a, v)]"
  using assms by (auto simp: queue_ok_def)

lemma queue_ok_link_last:
  assumes "queue_ok q h (ys @ [(b, w)])" and a: "a \<notin> dom h"
    and "h' = h(a \<mapsto> \<lparr>nval = v, nnext = None\<rparr>, b \<mapsto> \<lparr>nval = w, nnext = Some a\<rparr>)"
    and "length (ys @ [(b, w)]) < unat (qmax q)"
    and "qfirst q' = qfirst q" "qlast q' = Some a" "qcount q' = qcount q + 1" "qmax q' = qmax q"
  shows "queue_ok q' h' (ys @ [(b, w), (a, v)])"
proof -
  from assms(1) have ok: "qlist h (qfirst q) (ys @ [(b, w)])" "distinct (map fst (ys @ [(b, w)]))"
    "dom h = fst ` set (ys @ [(b, w)])" by (auto simp: queue_ok_def)
  with a have "a \<notin> fst ` set (ys @ [(b, w)])" by simp
  with qlist_link [OF ok(1,2) this assms(3)] ok assms show ?thesis
    by (auto simp: queue_ok_def)
qed

lemma queue_ok_unlink:
  assumes "queue_ok q h ((a, v) # xs)"
  shows "\<exists>n. qfirst q = Some a \<and> h a = Some \<lparr>nval = v, nnext = n\<rparr> \<and>
    (\<forall>q'. qfirst q' = n \<longrightarrow> qlast q' = qlast q \<longrightarrow> qcount q' = qcount q - 1 \<longrightarrow> qmax q' = qmax q \<longrightarrow>
       queue_ok q' (h(a := None)) xs)"
proof -
  from assms obtain n where n: "qfirst q = Some a" "h a = Some \<lparr>nval = v, nnext = n\<rparr>" "qlist h n xs"
    by (auto simp: queue_ok_def)
  have "queue_ok q' (h(a := None)) xs"
    if "qfirst q' = n" "qlast q' = qlast q" "qcount q' = qcount q - 1" "qmax q' = qmax q" for q'
    using assms n that by (auto simp: queue_ok_def)
  with n show ?thesis by auto
qed

text \<open>The statistics are not part of the representation.\<close>

lemma queue_ok_stats [simp]:
  "queue_ok (q\<lparr>add_attempts := i\<rparr>) h xs = queue_ok q h xs"
  "queue_ok (q\<lparr>get_attempts := i\<rparr>) h xs = queue_ok q h xs"
  "queue_ok (q\<lparr>add_count := i\<rparr>) h xs = queue_ok q h xs"
  "queue_ok (q\<lparr>get_count := i\<rparr>) h xs = queue_ok q h xs"
  by (simp_all add: queue_ok_def)

lemma qnode_full [simp]: "(n :: qnode_t)\<lparr>nval := v, nnext := p\<rparr> = \<lparr>nval = v, nnext = p\<rparr>"
  by simp

section \<open>Running a function on its own\<close>

text \<open>
  A sequential call: the thread has nothing to return to, the lock is uncontended and its
  operations do nothing. \<open>None\<close> means that the fuel did not suffice; no function of the queue
  has a loop, so a fuel of thirty statements is enough for each of them.
\<close>

fun run_call :: "nat \<Rightarrow> qnode_t choice \<Rightarrow> tlocal \<Rightarrow> queue_t \<Rightarrow> qnode_t heap \<Rightarrow> q_outcome option" where
  "run_call 0 c l q h = None"
| "run_call (Suc n) c l q h = (if code l = [] then Some (Next l q h)
     else case q_exec c l q h of Next l' q' h' \<Rightarrow> run_call n c l' q' h' | r \<Rightarrow> Some r)"

definition fresh_local :: tlocal where
  "fresh_local = \<lparr>code = [], ret_to = [], body = [], fn_add = [], fn_get = [], fn_print = [],
     v_arg = 0, v_ok = 0, v_val = -1, v_i = 0, v_expected = 0, p_new = None, p_tmp = None,
     r_count = 0, r_stat = 0, errors = [], stats_log = []\<rparr>"

text \<open>The result of a call: the value returned, \<open>*val\<close>, the queue and the heap.\<close>

definition call :: "qnode_t choice \<Rightarrow> stmt list \<Rightarrow> c_int \<Rightarrow> queue_t \<Rightarrow> qnode_t heap \<Rightarrow>
    (c_int \<times> c_int \<times> queue_t \<times> qnode_t heap) option" where
  "call c fn v q h = (case run_call 30 c (fresh_local\<lparr>code := fn, v_arg := v\<rparr>) q h of
     Some (Next l q' h') \<Rightarrow> Some (v_ok l, v_val l, q', h') | _ \<Rightarrow> None)"

lemmas run_call_numeral [simp] = run_call.simps(2) [of "pred_numeral k" for k, folded numeral_eq_Suc]

lemma q_exec_simps [simp]:
  "code l = [] \<Longrightarrow> q_exec c l q h = Next (l\<lparr>code := body l\<rparr>) q h"
  "code l = s # k \<Longrightarrow> q_exec c l q h = exec_stmt c s (l\<lparr>code := k\<rparr>) q h"
  by (simp_all add: q_exec_def)

end
