(* ===== verification/Queue_Plain.thy ===== *)
theory Queue_Plain
  imports Queue_Inv
begin

text \<open>
  The queue without synchronisation, \<open>semestr2/Task2/Task2_1\<close>: the functions of \<open>queue.c\<close>, the
  programs \<open>queue-example.c\<close> and \<open>queue-threads.c\<close> that use them, the abstract bounded queue they
  implement when they are called one after the other, and the interleaving of \<open>queue-threads.c\<close>
  that writes to a freed node.
\<close>

section \<open>The functions of queue.c\<close>

definition queue_add :: "stmt list" where
  "queue_add = [Assert_le_max, Load_stat Add_attempts, Store_stat Add_attempts,
     If_full [Return 0],
     Malloc_new, New_val, New_next,
     If_no_first [Last_new, First_last] [Last_next_new, Last_advance],
     Load_count, Store_count_inc, Load_stat Add_count, Store_stat Add_count,
     Return 1]"

definition queue_get :: "stmt list" where
  "queue_get = [Assert_le_max, Load_stat Get_attempts, Store_stat Get_attempts,
     Assert_ge_0, If_empty [Return 0],
     Tmp_first, Val_tmp, First_advance, Free_tmp,
     Load_count, Store_count_dec, Load_stat Get_count, Store_stat Get_count,
     Return 1]"

definition queue_print_stats :: "stmt list" where
  "queue_print_stats = [Print_stats, Return 0]"

text \<open>
  \<open>queue_init\<close>: the first argument says whether \<open>malloc\<close> succeeds, the second is the
  result of \<open>pthread_create\<close>; \<open>None\<close> is \<open>abort()\<close>.
\<close>

definition queue_init :: "bool \<Rightarrow> c_int \<Rightarrow> c_int \<Rightarrow> queue_t option" where
  "queue_init malloc_ok err max_count =
     (if \<not> malloc_ok then None
      else let q = \<lparr>qfirst = None, qlast = None, qcount = 0, qmax = max_count,
                    add_attempts = 0, get_attempts = 0, add_count = 0, get_count = 0\<rparr>
           in if err \<noteq> 0 then None else Some q)"

text \<open>
  The loop of \<open>queue_destroy\<close>. It does not end on a heap with infinitely many cells only, so it is
  a partial function; the outer \<open>None\<close> is "does not return".
\<close>

partial_function (option) destroy_loop :: "ptr \<Rightarrow> qnode_t heap \<Rightarrow> (fault + qnode_t heap) option" where
  "destroy_loop cur_ptr_q h = (case cur_ptr_q of None \<Rightarrow> Some (Inr h)
     | Some a \<Rightarrow> (case load h cur_ptr_q of Inl e \<Rightarrow> Some (Inl e)
        | Inr n \<Rightarrow> (case free_cell h cur_ptr_q of Inl e \<Rightarrow> Some (Inl e)
           | Inr h' \<Rightarrow> destroy_loop (nnext n) h')))"

text \<open>
  \<open>queue_destroy\<close>: sets the monitor's stop flag, joins it (a failure is only reported) and frees
  the nodes. The result is the stop flag and the heap.
\<close>

definition queue_destroy :: "c_int \<Rightarrow> queue_t \<Rightarrow> qnode_t heap \<Rightarrow> (fault + bool \<times> qnode_t heap) option" where
  "queue_destroy join_err q h =
     map_option (\<lambda>r. case r of Inl e \<Rightarrow> Inl e | Inr h' \<Rightarrow> Inr (True, h')) (destroy_loop (qfirst q) h)"

section \<open>The abstract queue\<close>

datatype qop = OpAdd c_int | OpGet

text \<open>The value returned, what is left in \<open>*val\<close> (initially \<open>-1\<close>), and the new contents.\<close>

fun fifo :: "nat \<Rightarrow> qop \<Rightarrow> c_int list \<Rightarrow> (c_int \<times> c_int) \<times> c_int list" where
  "fifo cap (OpAdd v) xs = (if length xs = cap then ((0, -1), xs) else ((1, -1), xs @ [v]))"
| "fifo cap OpGet [] = ((0, -1), [])"
| "fifo cap OpGet (x # xs) = ((1, x), xs)"

fun fifos :: "nat \<Rightarrow> qop list \<Rightarrow> c_int list \<Rightarrow> (c_int \<times> c_int) list \<times> c_int list" where
  "fifos cap [] xs = ([], xs)"
| "fifos cap (p # ps) xs = (let (r, ys) = fifo cap p xs; (rs, zs) = fifos cap ps ys in (r # rs, zs))"

text \<open>
  The statistics: every call counts as an attempt, every successful one as done.
\<close>

definition stats_after_add :: "queue_t \<Rightarrow> c_int \<Rightarrow> queue_t \<Rightarrow> bool" where
  "stats_after_add q r q' \<longleftrightarrow> add_attempts q' = add_attempts q + 1 \<and> get_attempts q' = get_attempts q \<and>
     add_count q' = add_count q + ucast r \<and> get_count q' = get_count q \<and> qmax q' = qmax q"

definition stats_after_get :: "queue_t \<Rightarrow> c_int \<Rightarrow> queue_t \<Rightarrow> bool" where
  "stats_after_get q r q' \<longleftrightarrow> get_attempts q' = get_attempts q + 1 \<and> add_attempts q' = add_attempts q \<and>
     get_count q' = get_count q + ucast r \<and> add_count q' = add_count q \<and> qmax q' = qmax q"

section \<open>The contract of a queue implementation\<close>

text \<open>A sequence of calls, each with the address \<open>malloc\<close> would return in it.\<close>

fun call_op :: "stmt list \<Rightarrow> stmt list \<Rightarrow> qop \<times> addr \<Rightarrow> queue_t \<Rightarrow> qnode_t heap \<Rightarrow>
    (c_int \<times> c_int \<times> queue_t \<times> qnode_t heap) option" where
  "call_op add get (OpAdd v, a) q h = call (ChAlloc a \<lparr>nval = 0, nnext = None\<rparr>) add v q h"
| "call_op add get (OpGet, a) q h = call ChFail get 0 q h"

fun call_ops :: "stmt list \<Rightarrow> stmt list \<Rightarrow> (qop \<times> addr) list \<Rightarrow> queue_t \<Rightarrow> qnode_t heap \<Rightarrow>
    ((c_int \<times> c_int) list \<times> queue_t \<times> qnode_t heap) option" where
  "call_ops add get [] q h = Some ([], q, h)"
| "call_ops add get (p # ps) q h =
     (case call_op add get p q h of None \<Rightarrow> None
      | Some (r, v, q', h') \<Rightarrow> map_option (\<lambda>(rs, x). ((r, v) # rs, x)) (call_ops add get ps q' h'))"

locale fifo_queue =
  fixes add get :: "stmt list"
  assumes add_ok: "queue_ok q h xs \<Longrightarrow> a \<notin> dom h \<Longrightarrow> length xs < unat (qmax q) \<Longrightarrow>
      \<exists>q' h'. call (ChAlloc a junk) add v q h = Some (1, -1, q', h') \<and>
        queue_ok q' h' (xs @ [(a, v)]) \<and> stats_after_add q 1 q' \<and> dom h' = insert a (dom h)"
    and add_full: "queue_ok q h xs \<Longrightarrow> a \<notin> dom h \<Longrightarrow> length xs = unat (qmax q) \<Longrightarrow>
      \<exists>q'. call (ChAlloc a junk) add v q h = Some (0, -1, q', h) \<and> queue_ok q' h xs \<and> stats_after_add q 0 q'"
    and get_ok: "queue_ok q h ((a, x) # xs) \<Longrightarrow>
      \<exists>q'. call c get w q h = Some (1, x, q', h(a := None)) \<and> queue_ok q' (h(a := None)) xs \<and>
        stats_after_get q 1 q'"
    and get_empty: "queue_ok q h [] \<Longrightarrow>
      \<exists>q'. call c get w q h = Some (0, -1, q', h) \<and> queue_ok q' h [] \<and> stats_after_get q 0 q'"
begin

lemma call_op_refines:
  assumes "queue_ok q h xs" and "a \<notin> dom h"
  shows "\<exists>r q' h' ys. call_op add get (p, a) q h = Some (fst r, snd r, q', h') \<and>
    queue_ok q' h' ys \<and> fifo (unat (qmax q)) p (map snd xs) = (r, map snd ys) \<and> qmax q' = qmax q \<and>
    dom h' \<subseteq> insert a (dom h)"
proof (cases p)
  case (OpAdd v)
  show ?thesis
  proof (cases "length xs = unat (qmax q)")
    case True
    with add_full [OF assms True, of "\<lparr>nval = 0, nnext = None\<rparr>" v] OpAdd show ?thesis
      by (auto simp: stats_after_add_def)
  next
    case False
    with assms(1) have "length xs < unat (qmax q)" by (simp add: queue_ok_def)
    with add_ok [OF assms this, of "\<lparr>nval = 0, nnext = None\<rparr>" v] OpAdd False show ?thesis
      by (fastforce simp: stats_after_add_def)
  qed
next
  case OpGet
  show ?thesis
  proof (cases xs)
    case Nil
    with get_empty [of q h ChFail 0] assms OpGet show ?thesis by (fastforce simp: stats_after_get_def)
  next
    case (Cons x ys)
    then obtain b v where "x = (b, v)" by force
    with get_ok [of q h b v ys ChFail 0] assms OpGet Cons show ?thesis
      by (fastforce simp: stats_after_get_def)
  qed
qed

text \<open>Any sequence of calls gives the results of the abstract queue.\<close>

theorem call_ops_refines:
  assumes "queue_ok q h xs" and "distinct (map snd ps)" and "set (map snd ps) \<inter> dom h = {}"
  shows "\<exists>rs q' h' ys. call_ops add get ps q h = Some (rs, q', h') \<and> queue_ok q' h' ys \<and>
    fifos (unat (qmax q)) (map fst ps) (map snd xs) = (rs, map snd ys)"
  using assms
proof (induction ps arbitrary: q h xs)
  case Nil
  then show ?case by fastforce
next
  case (Cons pa ps)
  obtain p a where pa: "pa = (p, a)" by force
  with Cons.prems have a: "a \<notin> dom h" by auto
  from call_op_refines [OF Cons.prems(1) a, of p] obtain r q1 h1 ys where
    1: "call_op add get (p, a) q h = Some (fst r, snd r, q1, h1)" "queue_ok q1 h1 ys"
      "fifo (unat (qmax q)) p (map snd xs) = (r, map snd ys)" "qmax q1 = qmax q" "dom h1 \<subseteq> insert a (dom h)"
    by blast
  have "distinct (map snd ps)" "set (map snd ps) \<inter> dom h1 = {}"
    using Cons.prems pa 1(5) by auto
  from Cons.IH [OF 1(2) this] 1 pa show ?case by fastforce
qed

end

text \<open>
  How an implementation is shown to satisfy the contract: what its two functions do to the
  header and to the heap in each of the five situations, found by executing them symbolically.
\<close>

lemmas call_simps = call_def fresh_local_def stats_after_add_def stats_after_get_def

lemma fifo_queueI:
  assumes A1: "\<And>q h a junk v. a \<notin> dom h \<Longrightarrow> qcount q \<noteq> qmax q \<Longrightarrow> qcount q <=s qmax q \<Longrightarrow> qfirst q = None \<Longrightarrow>
      \<exists>q'. call (ChAlloc a junk) add v q h = Some (1, -1, q', h(a \<mapsto> \<lparr>nval = v, nnext = None\<rparr>)) \<and>
        qfirst q' = Some a \<and> qlast q' = Some a \<and> qcount q' = qcount q + 1 \<and> stats_after_add q 1 q'"
    and A2: "\<And>q h a b f w junk v. a \<notin> dom h \<Longrightarrow> qcount q \<noteq> qmax q \<Longrightarrow> qcount q <=s qmax q \<Longrightarrow>
      qfirst q = Some f \<Longrightarrow> qlast q = Some b \<Longrightarrow> h b = Some \<lparr>nval = w, nnext = None\<rparr> \<Longrightarrow> a \<noteq> b \<Longrightarrow> b \<noteq> a \<Longrightarrow>
      \<exists>q'. call (ChAlloc a junk) add v q h =
          Some (1, -1, q', h(a \<mapsto> \<lparr>nval = v, nnext = None\<rparr>, b \<mapsto> \<lparr>nval = w, nnext = Some a\<rparr>)) \<and>
        qfirst q' = qfirst q \<and> qlast q' = Some a \<and> qcount q' = qcount q + 1 \<and> stats_after_add q 1 q'"
    and A3: "\<And>q h a junk v. a \<notin> dom h \<Longrightarrow> qcount q = qmax q \<Longrightarrow> qcount q <=s qmax q \<Longrightarrow>
      call (ChAlloc a junk) add v q h = Some (0, -1, q\<lparr>add_attempts := add_attempts q + 1\<rparr>, h)"
    and G1: "\<And>q h a x n c w. qcount q \<noteq> 0 \<Longrightarrow> 0 <=s qcount q \<Longrightarrow> qcount q <=s qmax q \<Longrightarrow> qfirst q = Some a \<Longrightarrow>
      h a = Some \<lparr>nval = x, nnext = n\<rparr> \<Longrightarrow>
      \<exists>q'. call c get w q h = Some (1, x, q', h(a := None)) \<and> qfirst q' = n \<and> qlast q' = qlast q \<and>
        qcount q' = qcount q - 1 \<and> stats_after_get q 1 q'"
    and G2: "\<And>q h c w. qcount q = 0 \<Longrightarrow> 0 <=s qcount q \<Longrightarrow> qcount q <=s qmax q \<Longrightarrow>
      call c get w q h = Some (0, -1, q\<lparr>get_attempts := get_attempts q + 1\<rparr>, h)"
  shows "fifo_queue add get"
proof
  fix q h xs a junk v
  assume ok: "queue_ok q h xs" and a: "a \<notin> dom h"
  note facts = queue_ok_facts [OF ok]
  show "\<exists>q' h'. call (ChAlloc a junk) add v q h = Some (1, -1, q', h') \<and>
        queue_ok q' h' (xs @ [(a, v)]) \<and> stats_after_add q 1 q' \<and> dom h' = insert a (dom h)"
    if n: "length xs < unat (qmax q)"
  proof (cases "xs = []")
    case True
    with A1 [OF a, of q junk v] facts n queue_ok_link_first [OF ok [unfolded True] refl, where a = a and v = v]
    show ?thesis by (fastforce simp: stats_after_add_def)
  next
    case False
    obtain b w ys where b: "xs = ys @ [(b, w)]" "qlast q = Some b" "h b = Some \<lparr>nval = w, nnext = None\<rparr>"
      using queue_ok_last [OF ok False] .
    from b a have "a \<noteq> b" "b \<noteq> a" "b \<in> dom h" by auto
    moreover from False facts obtain f where "qfirst q = Some f" by auto
    ultimately show ?thesis
      using A2 [OF a, of q f b w junk v] facts n b
        queue_ok_link_last [OF ok [unfolded b(1)] a refl, where v = v]
      by (fastforce simp: stats_after_add_def)
  qed
  show "\<exists>q'. call (ChAlloc a junk) add v q h = Some (0, -1, q', h) \<and> queue_ok q' h xs \<and>
      stats_after_add q 0 q'" if "length xs = unat (qmax q)"
    using A3 [OF a, of q junk v] facts that ok by (simp add: stats_after_add_def)
next
  fix q h a x xs c w
  assume ok: "queue_ok q h ((a, x) # xs)"
  from queue_ok_unlink [OF ok] queue_ok_facts [OF ok] G1 [of q a h x _ c w]
  show "\<exists>q'. call c get w q h = Some (1, x, q', h(a := None)) \<and> queue_ok q' (h(a := None)) xs \<and>
        stats_after_get q 1 q'" by (fastforce simp: stats_after_get_def)
next
  fix q h c w
  assume ok: "queue_ok q h []"
  with queue_ok_facts [OF ok] G2 [of q c w h]
  show "\<exists>q'. call c get w q h = Some (0, -1, q', h) \<and> queue_ok q' h [] \<and> stats_after_get q 0 q'"
    by (simp add: stats_after_get_def)
qed

interpretation plain: fifo_queue queue_add queue_get
  by (rule fifo_queueI) (auto simp add: call_simps queue_add_def queue_get_def)

section \<open>Properties of queue.c called from one thread\<close>


definition empty_queue :: "c_int \<Rightarrow> queue_t" where
  "empty_queue m = \<lparr>qfirst = None, qlast = None, qcount = 0, qmax = m,
     add_attempts = 0, get_attempts = 0, add_count = 0, get_count = 0\<rparr>"

lemma empty_queue_ok: "unat m < 2 ^ 31 \<Longrightarrow> queue_ok (empty_queue m) Map.empty []"
  by (simp add: queue_ok_def empty_queue_def)


text \<open>Leaving without memory: \<open>queue_add\<close> aborts, and only when there was room for the value.\<close>

text \<open>
  Error path. When \<open>malloc\<close> fails, \<open>queue_add\<close> on a queue with room ends the process by
  \<open>abort()\<close>; on a full queue it never asks for memory and returns 0.
\<close>

theorem queue_add_out_of_memory:
  assumes ok: "queue_ok q h xs"
  shows "run_call 30 ChFail (fresh_local\<lparr>code := queue_add, v_arg := v\<rparr>) q h = Some Exit \<longleftrightarrow>
    length xs < unat (qmax q)"
proof -
  have "length xs \<le> unat (qmax q)" using ok by (simp add: queue_ok_def)
  then show ?thesis
    using queue_ok_facts [OF ok] by (auto simp: fresh_local_def queue_add_def)
qed

theorem queue_add_out_of_memory_witness:
  "run_call 30 ChFail (fresh_local\<lparr>code := queue_add, v_arg := 5\<rparr>) (empty_queue 3) Map.empty = Some Exit"
  using queue_add_out_of_memory [OF empty_queue_ok, of 3 5] by (simp add: empty_queue_def)

lemma destroy_loop_frees:
  "qlist h p xs \<Longrightarrow> distinct (map fst xs) \<Longrightarrow> destroy_loop p h = Some (Inr (h |` (- (fst ` set xs))))"
proof (induction xs arbitrary: p h)
  case Nil
  then show ?case by (simp add: destroy_loop.simps)
next
  case (Cons x xs)
  obtain a v where x: "x = (a, v)" by force
  with Cons.prems obtain n where n: "p = Some a" "h a = Some \<lparr>nval = v, nnext = n\<rparr>" "qlist h n xs"
    by auto
  with Cons.prems x have "qlist (h(a := None)) n xs" and "distinct (map fst xs)" by auto
  then have "destroy_loop n (h(a := None)) = Some (Inr ((h(a := None)) |` (- (fst ` set xs))))"
    by (rule Cons.IH)
  moreover have "(h(a := None)) |` (- (fst ` set xs)) = h |` (- (fst ` set (x # xs)))"
    using x by (auto simp: restrict_map_def fun_eq_iff)
  moreover have "destroy_loop p h = destroy_loop n (h(a := None))"
    using n by (simp add: destroy_loop.simps [of "Some a" h])
  ultimately show ?case by simp
qed

lemma queue_destroy_frees_nodes:
  assumes "queue_ok q h xs"
  shows "queue_destroy join_err q h = Some (Inr (True, Map.empty))"
proof -
  from assms have "h |` (- (fst ` set xs)) = Map.empty"
    by (auto simp: queue_ok_def restrict_map_def fun_eq_iff dom_def)
  with assms destroy_loop_frees [of h "qfirst q" xs] show ?thesis
    by (auto simp: queue_ok_def queue_destroy_def)
qed

text \<open>
  C28. Termination and memory safety. \<open>queue_destroy\<close> of a well-formed queue returns, faults on no
  node and frees every one of them.
\<close>

theorem queue_destroy_frees_every_node:
  assumes "queue_ok q h xs"
  shows "queue_destroy join_err q h = Some (Inr (True, Map.empty))"
  using assms by (rule queue_destroy_frees_nodes)

theorem queue_destroy_frees_every_node_witness:
  "queue_destroy 0 ((empty_queue 5)\<lparr>qfirst := Some 9, qlast := Some 9, qcount := 1\<rparr>)
     [9 \<mapsto> \<lparr>nval = 4, nnext = None\<rparr>] = Some (Inr (True, Map.empty))"
proof -
  have "queue_ok ((empty_queue 5)\<lparr>qfirst := Some 9, qlast := Some 9, qcount := 1\<rparr>)
     [9 \<mapsto> \<lparr>nval = 4, nnext = None\<rparr>] [(9, 4)]" by (simp add: queue_ok_def empty_queue_def)
  then show ?thesis by (rule queue_destroy_frees_every_node)
qed

section \<open>The program queue-example.c\<close>

text \<open>
  \<open>main\<close>: ten values are added, twelve times a value is asked for, then the queue is destroyed.
  \<open>alloc\<close> is the address \<open>malloc\<close> returns in the \<open>i\<close>-th call. The result is the list of the pairs
  (\<open>ok\<close>, \<open>val\<close>) the program prints and the heap at the end; \<open>None\<close> if it does not get there.
\<close>

definition queue_example_main :: "(nat \<Rightarrow> addr) \<Rightarrow> ((c_int \<times> c_int) list \<times> qnode_t heap) option" where
  "queue_example_main alloc = (case queue_init True 0 1000 of None \<Rightarrow> None | Some q \<Rightarrow>
     (case call_ops queue_add queue_get
        (map (\<lambda>i. (OpAdd (of_nat i), alloc i)) [0..<10] @ map (\<lambda>i. (OpGet, alloc i)) [10..<22]) q Map.empty of
        None \<Rightarrow> None
      | Some (rs, q', h') \<Rightarrow> (case queue_destroy 0 q' h' of
          Some (Inr (stop, h'')) \<Rightarrow> Some (rs, h'') | _ \<Rightarrow> None)))"

lemma queue_init_ok: "queue_init True 0 m = Some (empty_queue m)"
  by (simp add: queue_init_def empty_queue_def)

lemma queue_example_fifo:
  "fifos 1000 (map (\<lambda>i. OpAdd (of_nat i)) [0..<10] @ map (\<lambda>i. OpGet) [10..<22]) [] =
     (replicate 10 (1, -1) @ map (\<lambda>i. (1, of_nat i)) [0..<10] @ [(0, -1), (0, -1)], [])"
  by code_simp

text \<open>
  Functional behaviour of \<open>queue-example.c\<close>: whatever fresh addresses the allocator returns,
  the ten additions succeed, the first ten reads return 0 to 9 in order, the last two fail and
  leave \<open>-1\<close>, and no node is leaked.
\<close>

theorem queue_example_output:
  assumes "inj alloc"
  shows "queue_example_main alloc =
    Some (replicate 10 (1, -1) @ map (\<lambda>i. (1, of_nat i)) [0..<10] @ [(0, -1), (0, -1)], Map.empty)"
proof -
  let ?ps = "map (\<lambda>i. (OpAdd (of_nat i), alloc i)) [0..<10] @ map (\<lambda>i. (OpGet, alloc i)) [10..<22]"
  have ok: "queue_ok (empty_queue 1000) Map.empty []" by (rule empty_queue_ok) simp
  have "map snd ?ps = map alloc ([0..<10] @ [10..<22])" by (simp add: comp_def)
  moreover have "[0..<10] @ [10..<22] = [0..<22::nat]" by code_simp
  moreover have "distinct (map alloc [0..<22])"
    using assms by (simp add: distinct_map inj_on_def inj_def)
  ultimately have d: "distinct (map snd ?ps)" by metis
  have e: "set (map snd ?ps) \<inter> dom (Map.empty :: qnode_t heap) = {}" by simp
  obtain rs q' h' ys where r: "call_ops queue_add queue_get ?ps (empty_queue 1000) Map.empty = Some (rs, q', h')"
    "queue_ok q' h' ys" "fifos (unat (qmax (empty_queue 1000))) (map fst ?ps)
      (map snd ([] :: (addr \<times> c_int) list)) = (rs, map snd ys)"
    using plain.call_ops_refines [OF ok d e] by blast
  have "map fst ?ps = map (\<lambda>i. OpAdd (of_nat i)) [0..<10] @ map (\<lambda>i. OpGet) [10..<22]"
    by (simp add: comp_def)
  with r(3) have "fifos 1000 (map (\<lambda>i. OpAdd (of_nat i)) [0..<10] @ map (\<lambda>i. OpGet) [10..<22]) [] = (rs, map snd ys)"
    by (simp add: empty_queue_def comp_def)
  then have "rs = replicate 10 (1, -1) @ map (\<lambda>i. (1, of_nat i)) [0..<10] @ [(0, -1), (0, -1)]"
    using queue_example_fifo by simp
  with r(1) queue_destroy_frees_nodes [OF r(2), of 0] show ?thesis
    unfolding queue_example_main_def queue_init_ok by simp
qed

theorem queue_example_output_witness:
  "inj (\<lambda>i. 2 * i :: nat) \<and> (\<exists>h. queue_example_main (\<lambda>i. 2 * i) = Some
    (replicate 10 (1, -1) @ map (\<lambda>i. (1, of_nat i)) [0..<10] @ [(0, -1), (0, -1)], h))"
proof
  show 1: "inj (\<lambda>i. 2 * i :: nat)" by (simp add: inj_def)
  show "\<exists>h. queue_example_main (\<lambda>i. 2 * i) = Some
    (replicate 10 (1, -1) @ map (\<lambda>i. (1, of_nat i)) [0..<10] @ [(0, -1), (0, -1)], h)"
    using queue_example_output [OF 1] by blast
qed

section \<open>The threads of queue-threads.c\<close>

text \<open>The bodies of the endless loops of \<open>writer\<close>, \<open>reader\<close> and \<open>qmonitor\<close>.\<close>

definition writer :: "stmt list" where
  "writer = [Call_add, If_not_ok_continue, Inc_i]"

definition reader :: "stmt list" where
  "reader = [Val_init, Call_get, If_not_ok_continue, Check_expected, Set_expected]"

definition qmonitor :: "stmt list" where
  "qmonitor = [Call_print_stats]"

text \<open>The code that one of the programs is linked from.\<close>

record qprogram =
  p_add :: "stmt list"
  p_get :: "stmt list"
  p_print :: "stmt list"
  p_writer :: "stmt list"
  p_reader :: "stmt list"
  p_monitor :: "stmt list"

definition plain_program :: qprogram where
  "plain_program = \<lparr>p_add = queue_add, p_get = queue_get, p_print = queue_print_stats,
     p_writer = writer, p_reader = reader, p_monitor = qmonitor\<rparr>"

fun start_thread :: "qprogram \<Rightarrow> thread \<Rightarrow> tlocal" where
  "start_thread p Writer = fresh_local\<lparr>body := p_writer p, fn_add := p_add p\<rparr>"
| "start_thread p Reader = fresh_local\<lparr>body := p_reader p, fn_get := p_get p\<rparr>"
| "start_thread p Monitor = fresh_local\<lparr>body := p_monitor p, fn_print := p_print p\<rparr>"

definition threads_start :: "qprogram \<Rightarrow> queue_t \<Rightarrow> 'k \<Rightarrow>
    (thread, tlocal, queue_t, qnode_t, 'k) sys" where
  "threads_start p q k =
     \<lparr>locals = start_thread p, glob = q, cells = Map.empty, lk = k, st = Running\<rparr>"

text \<open>
  \<open>main\<close>: the arguments are the results of \<open>pthread_create\<close> for the monitor, the writer and the
  reader. \<open>None\<close>: the process has ended with a failure; otherwise the three threads run.
\<close>

definition queue_threads_main :: "c_int \<Rightarrow> c_int \<Rightarrow> c_int \<Rightarrow>
    (thread, tlocal, queue_t, qnode_t, unit) sys option" where
  "queue_threads_main err_m err_w err_r = (case queue_init True err_m 100000000 of None \<Rightarrow> None
     | Some q \<Rightarrow> if err_w \<noteq> 0 then None else if err_r \<noteq> 0 then None
         else Some (threads_start plain_program q ()))"

definition plain_prog :: "(thread, tlocal, queue_t, qnode_t, unit) prog" where
  "plain_prog = q_prog (\<lambda>t k. Some k) (\<lambda>t k. k)"

text \<open>
  The schedule that goes wrong: the writer adds one value and comes, in its second call, to the
  point where it has seen that the queue is not empty; the reader takes the only node out and
  frees it; the writer links its new node to the freed one.
\<close>

definition race_schedule :: "(thread \<times> qnode_t choice) list" where
  "race_schedule =
     replicate 6 (Writer, ChFail) @ [(Writer, ChAlloc 1 \<lparr>nval = 0, nnext = None\<rparr>)] @
     replicate 12 (Writer, ChFail) @
     replicate 6 (Writer, ChFail) @ [(Writer, ChAlloc 2 \<lparr>nval = 0, nnext = None\<rparr>)] @
     replicate 3 (Writer, ChFail) @
     replicate 12 (Reader, ChFail) @ [(Writer, ChFail)]"

lemmas thread_simps = threads_start_def fresh_local_def writer_def reader_def qmonitor_def
  q_prog_def q_kind_def q_pop_def empty_queue_def

lemma race_schedule_crashes:
  "\<exists>s. do_sched plain_prog race_schedule
      (threads_start plain_program (empty_queue 100000000) ()) = Some s \<and>
    st s = Crashed BadAccess"
  by (simp add: race_schedule_def plain_prog_def plain_program_def thread_simps replicate_num queue_add_def queue_get_def
     with_heap_def store_def load_def word_sle_eq)

text \<open>
  C27. The data race of \<open>queue-threads.c\<close>: without synchronisation there is an execution of the
  writer and the reader in which the writer writes through \<open>q->last\<close> to a node that the reader
  has already freed.
\<close>

theorem queue_threads_use_after_free:
  "\<exists>s0 s. queue_threads_main 0 0 0 = Some s0 \<and> lp_reach plain_prog s0 s \<and> st s = Crashed BadAccess"
  using race_schedule_crashes lp_reach_iff_sched
  by (fastforce simp: queue_threads_main_def queue_init_ok)

end
