(* ===== verification/Queue_Threads.thy ===== *)
theory Queue_Threads
  imports Queue_Plain
begin

text \<open>
  The producer, the consumer and the monitor over a queue that is protected by one lock: the
  resource invariant of the queue, the loop invariants of the three threads, and the proof that
  each thread on its own respects them, for the shapes of \<open>queue_add\<close> and \<open>queue_get\<close> that the
  files of \<open>semestr2/Task2/Task2_2\<close> have.
\<close>

section \<open>Invariants\<close>

text \<open>\<open>n\<close> consecutive values of type \<open>int\<close>, wrapping around.\<close>

fun count_up :: "c_int \<Rightarrow> nat \<Rightarrow> c_int list" where
  "count_up v 0 = []"
| "count_up v (Suc n) = v # count_up (v + 1) n"

lemma count_up_snoc: "count_up v (Suc n) = count_up v n @ [v + of_nat n]"
proof (induction n arbitrary: v)
  case (Suc n)
  have "count_up v (Suc (Suc n)) = v # (count_up (v + 1) n @ [v + 1 + of_nat n])"
    using Suc.IH [of "v + 1"] by simp
  then show ?case by (simp add: algebra_simps)
qed simp

text \<open>
  The lock protects a well-formed list whose values are the consecutive numbers that
  were added and not yet taken.
\<close>

definition pc_holds :: "queue_t \<Rightarrow> (addr \<times> c_int) list \<Rightarrow> bool" where
  "pc_holds q xs \<longleftrightarrow> map snd xs = count_up (ucast (get_count q)) (length xs) \<and>
     add_count q = get_count q + of_nat (length xs)"

definition pc_res :: "queue_t \<Rightarrow> qnode_t heap \<Rightarrow> bool" where
  "pc_res q h \<longleftrightarrow> (\<exists>xs. queue_ok q h xs \<and> pc_holds q xs)"

text \<open>The counter that only the thread itself advances.\<close>

fun pc_own :: "thread \<Rightarrow> queue_t \<Rightarrow> c_long" where
  "pc_own Writer q = add_count q"
| "pc_own Reader q = get_count q"
| "pc_own Monitor q = 0"

definition pc_head :: "tlocal \<Rightarrow> bool" where
  "pc_head l \<longleftrightarrow> code l = []"

text \<open>A thread is inside its critical section when it has to release the lock before it takes it.\<close>

fun inside_code :: "stmt list \<Rightarrow> bool" where
  "inside_code [] \<longleftrightarrow> False"
| "inside_code (s # k) \<longleftrightarrow> s = Unlock \<or> s \<noteq> Lock \<and> (\<forall>v. s \<noteq> Return v) \<and> inside_code k"

abbreviation inside :: "tlocal \<Rightarrow> bool" where
  "inside l \<equiv> inside_code (code l)"

definition pc_good :: "thread \<Rightarrow> bool \<Rightarrow> tlocal \<Rightarrow> bool" where
  "pc_good t b l \<longleftrightarrow> errors l = [] \<and> inside l = b"

definition pc_loop :: "qprogram \<Rightarrow> thread \<Rightarrow> tlocal \<Rightarrow> c_long \<Rightarrow> qnode_t heap \<Rightarrow> bool" where
  "pc_loop p t l n h \<longleftrightarrow> h = Map.empty \<and> (case t of
       Writer \<Rightarrow> body l = p_writer p \<and> fn_add l = p_add p \<and> v_i l = ucast n
     | Reader \<Rightarrow> body l = p_reader p \<and> fn_get l = p_get p \<and> v_expected l = ucast n
     | Monitor \<Rightarrow> body l = p_monitor p \<and> fn_print l = p_print p)"

abbreviation q_out :: "(thread \<Rightarrow> 'k \<Rightarrow> 'k option) \<Rightarrow> (thread \<Rightarrow> 'k \<Rightarrow> 'k) \<Rightarrow> qprogram \<Rightarrow> thread \<Rightarrow>
    tlocal \<Rightarrow> c_long \<Rightarrow> qnode_t heap \<Rightarrow> bool" where
  "q_out a r p \<equiv> safe_out (q_prog a r) pc_res pc_own pc_head (pc_loop p) pc_good"

abbreviation q_in :: "(thread \<Rightarrow> 'k \<Rightarrow> 'k option) \<Rightarrow> (thread \<Rightarrow> 'k \<Rightarrow> 'k) \<Rightarrow> qprogram \<Rightarrow> thread \<Rightarrow>
    tlocal \<Rightarrow> queue_t \<Rightarrow> qnode_t heap \<Rightarrow> bool" where
  "q_in a r p \<equiv> safe_in (q_prog a r) pc_res pc_own pc_head (pc_loop p) pc_good"

section \<open>Executing a thread symbolically\<close>

lemma exec_stmt_choice: "s \<noteq> Malloc_new \<Longrightarrow> exec_stmt c s l q h = exec_stmt ChFail s l q h"
  by (cases s) auto

lemma q_prog_simps [simp]:
  "kind (q_prog a r) = q_kind" "pop (q_prog a r) = q_pop" "exec (q_prog a r) = q_exec"
  "acq (q_prog a r) = a" "rel (q_prog a r) = r"
  by (simp_all add: q_prog_def)

lemma q_kind_simps [simp]:
  "code l = s # k \<Longrightarrow> s \<notin> {Lock, Unlock} \<Longrightarrow> q_kind l = KAct"
  "code l = Lock # k \<Longrightarrow> q_kind l = KLock"
  "code l = Unlock # k \<Longrightarrow> q_kind l = KUnlock"
  "code l = [] \<Longrightarrow> q_kind l = KAct"
  by (simp_all add: q_kind_def)

lemma q_pop_simps [simp]: "code l = s # k \<Longrightarrow> q_pop l = l\<lparr>code := k\<rparr>"
  by (simp add: q_pop_def)

lemma out_stmt:
  assumes "errors l = [] \<and> \<not> inside l" and "code l \<noteq> []" and "hd (code l) \<notin> {Malloc_new, Lock, Unlock}"
    and "\<And>q. \<exists>l' h'. exec_stmt ChFail (hd (code l)) (l\<lparr>code := tl (code l)\<rparr>) q h = Next l' q h' \<and> q_out a r p t l' n h'"
  shows "q_out a r p t l n h"
proof (rule out_act)
  show "pc_good t False l" using assms(1) by (simp add: pc_good_def)
  obtain s k where c: "code l = s # k" using assms(2) by (cases "code l") auto
  with assms(3) show "kind (q_prog a r) l = KAct" by simp
  fix c g
  show "exec (q_prog a r) c l g h = Exit \<or>
     (\<exists>l' h'. exec (q_prog a r) c l g h = Next l' g h' \<and> q_out a r p t l' n h')"
    using assms(3,4) c exec_stmt_choice [of s c "l\<lparr>code := k\<rparr>" g h] by auto
qed

lemma out_malloc:
  assumes "errors l = [] \<and> \<not> inside l" and "code l \<noteq> []" and "hd (code l) = Malloc_new"
    and "\<And>b junk. b \<notin> dom h \<Longrightarrow> q_out a r p t (l\<lparr>code := tl (code l), p_new := Some b\<rparr>) n (h(b \<mapsto> junk))"
  shows "q_out a r p t l n h"
proof (rule out_act)
  show "pc_good t False l" using assms(1) by (simp add: pc_good_def)
  obtain k where c: "code l = Malloc_new # k" using assms(2,3) by (cases "code l") auto
  then show "kind (q_prog a r) l = KAct" by simp
  fix c g
  assume "allowed c h"
  then show "exec (q_prog a r) c l g h = Exit \<or>
     (\<exists>l' h'. exec (q_prog a r) c l g h = Next l' g h' \<and> q_out a r p t l' n h')"
    using assms(4) c by (cases c) auto
qed

lemma out_end: "errors l = [] \<Longrightarrow> code l = [] \<Longrightarrow> pc_loop p t l n h \<Longrightarrow> q_out a r p t l n h"
  by (rule out_head) (simp_all add: pc_good_def pc_head_def)

lemma out_take:
  assumes "errors l = [] \<and> \<not> inside l" and "code l \<noteq> []" and "hd (code l) = Lock"
    and "\<And>q hR xs. pc_own t q = n \<Longrightarrow> queue_ok q hR xs \<Longrightarrow> pc_holds q xs \<Longrightarrow> disj h hR \<Longrightarrow>
      q_in a r p t (l\<lparr>code := tl (code l)\<rparr>) q (h ++ hR)"
  shows "q_out a r p t l n h"
proof -
  obtain k where c: "code l = Lock # k" using assms(2,3) by (cases "code l") auto
  show ?thesis
    by (rule out_lock) (use assms c in \<open>auto simp: pc_good_def pc_res_def\<close>)
qed

lemma in_stmt:
  assumes "errors l = [] \<and> inside l" and "code l \<noteq> []" and "hd (code l) \<notin> {Malloc_new, Lock, Unlock}"
    and "\<exists>l' q' h'. exec_stmt ChFail (hd (code l)) (l\<lparr>code := tl (code l)\<rparr>) q h = Next l' q' h' \<and>
      (\<forall>u. u \<noteq> t \<longrightarrow> pc_own u q' = pc_own u q) \<and> q_in a r p t l' q' h'"
  shows "q_in a r p t l q h"
proof (rule in_act)
  show "pc_good t True l" using assms(1) by (simp add: pc_good_def)
  obtain s k where c: "code l = s # k" using assms(2) by (cases "code l") auto
  with assms(3) show "kind (q_prog a r) l = KAct" by simp
  fix c
  show "exec (q_prog a r) c l q h = Exit \<or> (\<exists>l' g' h'. exec (q_prog a r) c l q h = Next l' g' h' \<and>
     (\<forall>u. u \<noteq> t \<longrightarrow> pc_own u g' = pc_own u q) \<and> q_in a r p t l' g' h')"
    using assms(3,4) c exec_stmt_choice [of s c "l\<lparr>code := k\<rparr>" q h] by auto
qed

lemma in_release:
  assumes "errors l = []" and "code l \<noteq> []" and "hd (code l) = Unlock" and "queue_ok q hR xs" and "pc_holds q xs"
    and "disj h1 hR" and "h = h1 ++ hR" and "q_out a r p t (l\<lparr>code := tl (code l)\<rparr>) (pc_own t q) h1"
  shows "q_in a r p t l q h"
proof -
  obtain k where c: "code l = Unlock # k" using assms(2,3) by (cases "code l") auto
  show ?thesis
    by (rule in_unlock [where ?h1.0 = h1 and hR = hR])
    (use assms c in \<open>auto simp: pc_good_def pc_res_def\<close>)
qed

text \<open>Several statements in a row, outside and inside the critical section.\<close>

fun runs_out :: "nat \<Rightarrow> tlocal \<Rightarrow> qnode_t heap \<Rightarrow> (tlocal \<Rightarrow> qnode_t heap \<Rightarrow> bool) \<Rightarrow> bool" where
  "runs_out 0 l h Q \<longleftrightarrow> Q l h"
| "runs_out (Suc m) l h Q \<longleftrightarrow> errors l = [] \<and> \<not> inside l \<and> code l \<noteq> [] \<and> hd (code l) \<notin> {Malloc_new, Lock, Unlock} \<and>
     (\<forall>q. \<exists>l' h'. exec_stmt ChFail (hd (code l)) (l\<lparr>code := tl (code l)\<rparr>) q h = Next l' q h' \<and> runs_out m l' h' Q)"

fun runs_in :: "thread \<Rightarrow> nat \<Rightarrow> tlocal \<Rightarrow> queue_t \<Rightarrow> qnode_t heap \<Rightarrow>
    (tlocal \<Rightarrow> queue_t \<Rightarrow> qnode_t heap \<Rightarrow> bool) \<Rightarrow> bool" where
  "runs_in t 0 l q h Q \<longleftrightarrow> Q l q h"
| "runs_in t (Suc m) l q h Q \<longleftrightarrow> errors l = [] \<and> inside l \<and> code l \<noteq> [] \<and> hd (code l) \<notin> {Malloc_new, Lock, Unlock} \<and>
     (\<exists>l' q' h'. exec_stmt ChFail (hd (code l)) (l\<lparr>code := tl (code l)\<rparr>) q h = Next l' q' h' \<and>
        (\<forall>u. u \<noteq> t \<longrightarrow> pc_own u q' = pc_own u q) \<and> runs_in t m l' q' h' Q)"

lemmas runs_numeral [simp] =
  runs_out.simps(2) [of "pred_numeral m" for m, folded numeral_eq_Suc]
  runs_in.simps(2) [of _ "pred_numeral m" for m, folded numeral_eq_Suc]

lemma out_runs: "runs_out m l h (\<lambda>l' h'. q_out a r p t l' n h') \<Longrightarrow> q_out a r p t l n h"
proof (induction m arbitrary: l h)
  case (Suc m)
  show ?case by (rule out_stmt) (use Suc in \<open>simp, simp, simp, fastforce\<close>)
qed simp

lemma in_runs: "runs_in t m l q h (q_in a r p t) \<Longrightarrow> q_in a r p t l q h"
proof (induction m arbitrary: l q h)
  case (Suc m)
  show ?case by (rule in_stmt) (use Suc in \<open>simp, simp, simp, fastforce\<close>)
qed simp

text \<open>The other threads' counters after a store.\<close>

lemma pc_own_kept [simp]:
  "(\<forall>u. u \<noteq> Writer \<longrightarrow> f u) \<longleftrightarrow> f Reader \<and> f Monitor"
  "(\<forall>u. u \<noteq> Reader \<longrightarrow> f u) \<longleftrightarrow> f Writer \<and> f Monitor"
  "(\<forall>u. u \<noteq> Monitor \<longrightarrow> f u) \<longleftrightarrow> f Writer \<and> f Reader"
  by (metis (full_types) thread.exhaust thread.distinct)+

lemma pc_holds_add:
  assumes "pc_holds q xs" and "get_count q' = get_count q" and "add_count q' = add_count q + 1"
    and "v = ucast (add_count q)"
  shows "pc_holds q' (xs @ [(a, v)])"
  using assms count_up_snoc [of "ucast (get_count q)" "length xs"]
  by (simp add: pc_holds_def ucast_add_c_int ucast_of_nat_c_int)

lemma pc_holds_get:
  assumes "pc_holds q ((a, v) # xs)" and "get_count q' = get_count q + 1" and "add_count q' = add_count q"
  shows "pc_holds q' xs \<and> v = ucast (get_count q)"
  using assms by (auto simp: pc_holds_def ucast_add_c_int)

lemma pc_holds_stats [simp]:
  "pc_holds (q\<lparr>add_attempts := i\<rparr>) xs = pc_holds q xs" "pc_holds (q\<lparr>get_attempts := i\<rparr>) xs = pc_holds q xs"
  by (simp_all add: pc_holds_def)

section \<open>The producer\<close>

text \<open>
  \<open>queue_add\<close> of the five files: \<open>pre\<close> is what precedes \<open>malloc\<close>, \<open>full\<close> what is done when the queue
  is full.
\<close>

definition add_inside :: "stmt list \<Rightarrow> stmt list" where
  "add_inside full = [Load_stat Add_attempts, Store_stat Add_attempts, Assert_le_max, If_full full,
     If_no_first [Last_new, First_last] [Last_next_new, Last_advance],
     Load_count, Store_count_inc, Load_stat Add_count, Store_stat Add_count, Unlock, Return 1]"

definition locked_add :: "stmt list \<Rightarrow> stmt list \<Rightarrow> stmt list" where
  "locked_add pre full = pre @ [Malloc_new, New_val, New_next, Lock] @ add_inside full"

lemma writer_return:
  assumes "errors l = []" and "code l = Return v # k" and "ret_to l = [If_not_ok_continue, Inc_i]"
    and "body l = p_writer p" and "fn_add l = p_add p" and "v_i l = ucast m"
    and "v = 0 \<and> n = m \<or> v = 1 \<and> n = m + 1"
  shows "q_out a r p Writer l n Map.empty"
  using assms(7)
proof (elim disjE conjE)
  assume v: "v = 0" "n = m"
  show ?thesis
    by (rule out_runs [where m = 2], simp add: assms v, rule out_end)
      (simp_all add: pc_loop_def assms v)
next
  assume v: "v = 1" "n = m + 1"
  show ?thesis
    by (rule out_runs [where m = 3], simp add: assms v, rule out_end)
      (simp_all add: pc_loop_def assms v ucast_add_c_int)
qed

lemma writer_full:
  assumes l: "errors l = []" "code l = add_inside full" "ret_to l = [If_not_ok_continue, Inc_i]"
    "body l = p_writer p" "fn_add l = p_add p" "v_i l = ucast (add_count q)" "p_new l = Some b"
    and full: "full = [Unlock, Free_new, Return 0] \<or> full = [Free_new, Unlock, Return 0]"
    and ok: "queue_ok q hR xs" "pc_holds q xs" "b \<notin> dom hR" "qcount q = qmax q"
  shows "q_in a r p Writer l q (hR(b \<mapsto> nd))"
proof -
  have e: "hR(b := None) = hR" "hR(b \<mapsto> nd) = [b \<mapsto> nd] ++ hR"
    using ok(3) by (auto simp: map_add_single)
  note l' = l [unfolded add_inside_def] and f = queue_ok_le_max [OF ok(1)] ok(4)
  from full show ?thesis
  proof
    assume f1: "full = [Unlock, Free_new, Return 0]"
    show ?thesis
      apply (rule in_runs [where m = 4], simp add: l' f f1)
      apply (rule in_release [where hR = hR and xs = xs and ?h1.0 = "[b \<mapsto> nd]"]; (simp add: l ok e(2))?)
      apply (rule out_runs [where m = 1], simp add: l)
      apply (rule writer_return [where m = "add_count q"]; simp add: l)
      done
  next
    assume f1: "full = [Free_new, Unlock, Return 0]"
    show ?thesis
      apply (rule in_runs [where m = 5], simp add: l' f f1 e(1))
      apply (rule in_release [where hR = hR and xs = xs and ?h1.0 = Map.empty]; (simp add: l ok)?)
      apply (rule writer_return [where m = "add_count q"]; simp add: l)
      done
  qed
qed

lemma writer_not_full:
  assumes l: "errors l = []" "code l = add_inside full" "ret_to l = [If_not_ok_continue, Inc_i]"
    "body l = p_writer p" "fn_add l = p_add p" "v_i l = ucast (add_count q)" "p_new l = Some b"
    and ok: "queue_ok q hR xs" "pc_holds q xs" "b \<notin> dom hR" "qcount q \<noteq> qmax q"
  shows "q_in a r p Writer l q (hR(b \<mapsto> \<lparr>nval = v_i l, nnext = None\<rparr>))"
proof -
  have n: "length xs < unat (qmax q)" using queue_ok_full [OF ok(1)] ok(1,4) by (simp add: queue_ok_def)
  note l' = l [unfolded add_inside_def] and f = queue_ok_le_max [OF ok(1)] queue_ok_first [OF ok(1)] ok(4)
  show ?thesis
  proof (cases "xs = []")
    case True
    show ?thesis
      apply (rule in_runs [where m = 11], simp add: l' f True)
      apply (rule in_release [where xs = "xs @ [(b, v_i l)]" and ?h1.0 = Map.empty];
        (rule pc_holds_add [OF ok(2)])?; (simp add: l' True)?)
       apply (rule queue_ok_link_first [OF ok(1) [unfolded True] refl]; use n True in simp)
      apply (rule writer_return [where m = "add_count q"]; simp add: l')
      done
  next
    case False
    then obtain c w ys where c: "xs = ys @ [(c, w)]" "qlast q = Some c" "hR c = Some \<lparr>nval = w, nnext = None\<rparr>"
      using queue_ok_last [OF ok(1)] by metis
    with ok(3) have cb: "c \<noteq> b" by auto
    show ?thesis
      apply (rule in_runs [where m = 11], simp add: l' f False c cb)
      apply (rule in_release [where xs = "xs @ [(b, v_i l)]" and ?h1.0 = Map.empty];
        (rule pc_holds_add [OF ok(2)])?; (simp add: l' c)?)
       apply (rule queue_ok_link_last [OF ok(1) [unfolded c(1)] ok(3) refl]; use n c in simp)
      apply (rule writer_return [where m = "add_count q"]; simp add: l')
      done
  qed
qed

lemma writer_inside:
  assumes "errors l = []" "code l = add_inside full" "ret_to l = [If_not_ok_continue, Inc_i]"
    "body l = p_writer p" "fn_add l = p_add p" "v_i l = ucast (add_count q)" "p_new l = Some b"
    and "full = [Unlock, Free_new, Return 0] \<or> full = [Free_new, Unlock, Return 0]"
    and "queue_ok q hR xs" "pc_holds q xs" "b \<notin> dom hR"
  shows "q_in a r p Writer l q ([b \<mapsto> \<lparr>nval = v_i l, nnext = None\<rparr>] ++ hR)"
  using writer_full [OF assms(1-11)] writer_not_full [OF assms(1-7) assms(9-11)] assms(11)
  by (cases "qcount q = qmax q") (simp_all add: map_add_single)

lemma writer_round:
  assumes p: "p_writer p = [Call_add, If_not_ok_continue, Inc_i]" "p_add p = locked_add pre full"
    and pre: "pre = [] \<or> pre = [Usleep]"
    and full: "full = [Unlock, Free_new, Return 0] \<or> full = [Free_new, Unlock, Return 0]"
    and l: "errors l = []" "code l = p_writer p" "body l = p_writer p" "fn_add l = p_add p" "v_i l = ucast n"
  shows "q_out a r p Writer l n Map.empty"
proof -
  have main: "q_out a r p Writer k n Map.empty"
    if k: "errors k = []" "code k = [Malloc_new, New_val, New_next, Lock] @ add_inside full"
      "ret_to k = [If_not_ok_continue, Inc_i]" "body k = p_writer p" "fn_add k = p_add p"
      "v_i k = ucast n" "v_arg k = v_i k" for k
    apply (rule out_malloc; simp add: k)
    apply (rule out_runs [where m = 2], simp add: k)
    apply (rule out_take; simp add: k)
    subgoal for b q hR xs
      using writer_inside [OF _ _ _ _ _ _ _ full, of "k\<lparr>p_new := Some b, code := add_inside full\<rparr>" p q b hR xs a r] k
      by (simp add: domIff)
    done
  from pre show ?thesis
  proof
    assume "pre = []"
    then show ?thesis
      by (intro out_runs [where m = 1 and l = l]) (simp add: l p locked_add_def, rule main, simp_all add: l p)
  next
    assume "pre = [Usleep]"
    then show ?thesis
      by (intro out_runs [where m = 2 and l = l]) (simp add: l p locked_add_def, rule main, simp_all add: l p)
  qed
qed

section \<open>The consumer\<close>

text \<open>
  \<open>queue_get\<close> of the five files: \<open>pre\<close> precedes the lock, \<open>rest\<close> is what is done when there is a
  value: the node is read and freed after the lock is released (four files) or before.
\<close>

definition get_inside :: "stmt list \<Rightarrow> stmt list" where
  "get_inside rest = [Load_stat Get_attempts, Store_stat Get_attempts, Assert_ge_0,
     If_empty [Unlock, Return 0]] @ rest"

definition locked_get :: "stmt list \<Rightarrow> stmt list \<Rightarrow> stmt list" where
  "locked_get pre rest = pre @ [Lock] @ get_inside rest"

definition free_after :: "stmt list" where
  "free_after = [Tmp_first, First_advance, Load_count, Store_count_dec,
     Load_stat Get_count, Store_stat Get_count, Unlock, Val_tmp, Free_tmp, Return 1]"

definition free_before :: "stmt list" where
  "free_before = [Tmp_first, Val_tmp, First_advance, Free_tmp, Load_count, Store_count_dec,
     Load_stat Get_count, Store_stat Get_count, Unlock, Return 1]"

abbreviation reader_rest :: "stmt list" where
  "reader_rest \<equiv> [If_not_ok_continue, Check_expected, Set_expected]"

lemma reader_return:
  assumes "errors l = []" and "code l = Return v # k" and "ret_to l = reader_rest"
    and "body l = p_reader p" and "fn_get l = p_get p" and "v_expected l = ucast m"
    and "v = 0 \<and> n = m \<or> v = 1 \<and> n = m + 1 \<and> v_val l = ucast m"
  shows "q_out a r p Reader l n Map.empty"
  using assms(7)
proof (elim disjE conjE)
  assume v: "v = 0" "n = m"
  show ?thesis
    by (rule out_runs [where m = 2], simp add: assms v, rule out_end)
      (simp_all add: pc_loop_def assms v)
next
  assume v: "v = 1" "n = m + 1" "v_val l = ucast m"
  show ?thesis
    by (rule out_runs [where m = 4], simp add: assms v, rule out_end)
      (simp_all add: pc_loop_def assms v ucast_add_c_int)
qed

lemma reader_empty:
  assumes l: "errors l = []" "code l = get_inside rest" "ret_to l = reader_rest"
    "body l = p_reader p" "fn_get l = p_get p" "v_expected l = ucast (get_count q)"
    and ok: "queue_ok q hR []" "pc_holds q []" and rest: "inside_code rest"
  shows "q_in a r p Reader l q hR"
  apply (rule in_runs [where m = 4])
  apply (simp add: l get_inside_def queue_ok_ge_0 [OF ok(1)] queue_ok_empty [OF ok(1)] rest)
  apply (rule in_release [where hR = hR and xs = "[]" and ?h1.0 = Map.empty]; (simp add: l ok)?)
  apply (rule reader_return [where m = "get_count q"]; simp add: l)
  done

lemma reader_value:
  assumes l: "errors l = []" "code l = get_inside rest" "ret_to l = reader_rest"
    "body l = p_reader p" "fn_get l = p_get p" "v_expected l = ucast (get_count q)"
    and rest: "rest = free_after \<or> rest = free_before"
    and ok: "queue_ok q hR ((b, v) # xs)" "pc_holds q ((b, v) # xs)"
  shows "q_in a r p Reader l q hR"
proof -
  from queue_ok_unlink [OF ok(1)] obtain n where n: "qfirst q = Some b" "hR b = Some \<lparr>nval = v, nnext = n\<rparr>"
    "\<And>q'. qfirst q' = n \<Longrightarrow> qlast q' = qlast q \<Longrightarrow> qcount q' = qcount q - 1 \<Longrightarrow> qmax q' = qmax q \<Longrightarrow>
       queue_ok q' (hR(b := None)) xs" by blast
  have v: "v = ucast (get_count q)" using ok(2) by (simp add: pc_holds_def)
  have e: "hR = [b \<mapsto> \<lparr>nval = v, nnext = n\<rparr>] ++ hR(b := None)"
    using n(2) by (auto simp: map_add_def fun_eq_iff split: option.splits)
  note f = queue_ok_ge_0 [OF ok(1)] queue_ok_empty [OF ok(1)]
  from rest show ?thesis
  proof
    assume r: "rest = free_after"
    show ?thesis
      apply (rule in_runs [where m = 10], simp add: l f n get_inside_def r free_after_def)
      apply (rule in_release [where hR = "hR(b := None)" and xs = xs and ?h1.0 = "[b \<mapsto> \<lparr>nval = v, nnext = n\<rparr>]"];
        (rule pc_holds_get [OF ok(2), THEN conjunct1] n e)?; (simp add: l)?)
      apply (rule out_runs [where m = 2], simp add: l)
      apply (rule reader_return [where m = "get_count q"]; simp add: l v)
      done
  next
    assume r: "rest = free_before"
    show ?thesis
      apply (rule in_runs [where m = 12], simp add: l f n get_inside_def r free_before_def)
      apply (rule in_release [where hR = "hR(b := None)" and xs = xs and ?h1.0 = Map.empty];
        (rule pc_holds_get [OF ok(2), THEN conjunct1] n)?; (simp add: l)?)
      apply (rule reader_return [where m = "get_count q"]; simp add: l v)
      done
  qed
qed

lemma reader_inside:
  assumes "errors l = []" "code l = get_inside rest" "ret_to l = reader_rest"
    "body l = p_reader p" "fn_get l = p_get p" "v_expected l = ucast (get_count q)"
    and "rest = free_after \<or> rest = free_before" and "queue_ok q hR xs" "pc_holds q xs"
  shows "q_in a r p Reader l q hR"
proof (cases xs)
  case Nil
  have "inside_code rest" using assms(7) by (auto simp: free_after_def free_before_def)
  with Nil reader_empty [OF assms(1-6)] assms(8,9) show ?thesis by simp
next
  case (Cons x ys)
  with reader_value [OF assms(1-7), of hR "fst x" "snd x" ys] assms(8,9) show ?thesis by simp
qed

lemma reader_round:
  assumes p: "p_reader p = [Val_init, Call_get, If_not_ok_continue, Check_expected, Set_expected]"
    "p_get p = locked_get pre rest"
    and pre: "pre = [] \<or> pre = [Usleep]" and rest: "rest = free_after \<or> rest = free_before"
    and l: "errors l = []" "code l = p_reader p" "body l = p_reader p" "fn_get l = p_get p"
      "v_expected l = ucast n"
  shows "q_out a r p Reader l n Map.empty"
proof -
  have main: "q_out a r p Reader k n Map.empty"
    if k: "errors k = []" "code k = Lock # get_inside rest" "ret_to k = reader_rest"
      "body k = p_reader p" "fn_get k = p_get p" "v_expected k = ucast n" for k
    by (rule out_take) (simp_all add: k reader_inside [OF _ _ _ _ _ _ rest])
  from pre show ?thesis
  proof
    assume "pre = []"
    then show ?thesis
      by (intro out_runs [where m = 2 and l = l]) (simp add: l p locked_get_def, rule main, simp_all add: l p)
  next
    assume "pre = [Usleep]"
    then show ?thesis
      by (intro out_runs [where m = 3 and l = l]) (simp add: l p locked_get_def, rule main, simp_all add: l p)
  qed
qed

section \<open>The monitor\<close>

lemma monitor_round:
  assumes p: "p_monitor p = [Call_print_stats]"
    and print: "p_print p = [Print_stats, Return 0] \<or> p_print p = [Lock, Print_stats, Unlock, Return 0]"
    and l: "errors l = []" "code l = p_monitor p" "body l = p_monitor p" "fn_print l = p_print p"
  shows "q_out a r p Monitor l n Map.empty"
  using print
proof
  assume pr: "p_print p = [Print_stats, Return 0]"
  show ?thesis
    by (rule out_runs [where m = 3], simp add: l p pr, intro allI out_end)
      (simp_all add: l p pr pc_loop_def)
next
  assume pr: "p_print p = [Lock, Print_stats, Unlock, Return 0]"
  show ?thesis
    apply (rule out_runs [where m = 1], simp add: l p pr)
    apply (rule out_take; simp)
     apply (simp add: l)
    apply (rule in_runs [where m = 1], simp add: l)
    apply (rule in_release [where ?h1.0 = Map.empty]; (simp add: l)?; assumption?)
    apply (rule out_runs [where m = 1], simp add: l)
    apply (rule out_end; simp add: l p pr pc_loop_def)
    done
qed

section \<open>The system\<close>

definition pc_shape :: "qprogram \<Rightarrow> bool" where
  "pc_shape p \<longleftrightarrow> p_writer p = [Call_add, If_not_ok_continue, Inc_i] \<and>
     p_reader p = [Val_init, Call_get, If_not_ok_continue, Check_expected, Set_expected] \<and>
     p_monitor p = [Call_print_stats] \<and>
     p_add p \<in> {locked_add pre full | pre full. pre \<in> {[], [Usleep]} \<and>
        full \<in> {[Unlock, Free_new, Return 0], [Free_new, Unlock, Return 0]}} \<and>
     p_get p \<in> {locked_get pre rest | pre rest. pre \<in> {[], [Usleep]} \<and> rest \<in> {free_after, free_before}} \<and>
     p_print p \<in> {[Print_stats, Return 0], [Lock, Print_stats, Unlock, Return 0]}"

lemma pc_round:
  assumes "pc_shape p" and "pc_good t False l" and "pc_loop p t l n h"
  shows "q_out a r p t (l\<lparr>code := body l\<rparr>) n h"
proof (cases t)
  case Writer
  with assms obtain pre full where "p_add p = locked_add pre full" "pre = [] \<or> pre = [Usleep]"
    "full = [Unlock, Free_new, Return 0] \<or> full = [Free_new, Unlock, Return 0]"
    by (auto simp: pc_shape_def)
  with assms Writer show ?thesis
    using writer_round [of p pre full "l\<lparr>code := body l\<rparr>" n a r]
    by (simp add: pc_shape_def pc_good_def pc_loop_def)
next
  case Reader
  with assms obtain pre rest where "p_get p = locked_get pre rest" "pre = [] \<or> pre = [Usleep]"
    "rest = free_after \<or> rest = free_before"
    by (auto simp: pc_shape_def)
  with assms Reader show ?thesis
    using reader_round [of p pre rest "l\<lparr>code := body l\<rparr>" n a r]
    by (simp add: pc_shape_def pc_good_def pc_loop_def)
next
  case Monitor
  with assms show ?thesis
    using monitor_round [of p "l\<lparr>code := body l\<rparr>" a r n]
    by (simp add: pc_shape_def pc_good_def pc_loop_def)
qed

text \<open>A program of that shape over any lock satisfies the laws of \<open>lock_program\<close>.\<close>

lemma pc_lock_program:
  assumes "lock_iface a r locked lock_ok" and "pc_shape p"
  shows "lock_program a r locked lock_ok (q_prog a r) pc_res pc_own pc_head (pc_loop p) pc_good"
proof (rule lock_program.intro [OF assms(1)], unfold_locales)
  show "acq (q_prog a r) = a" "rel (q_prog a r) = r" by simp_all
  show "exec (q_prog a r) c l g (h1 ++ h2) = Next l' g' (h1' ++ h2) \<and> disj h1' h2"
    if "exec (q_prog a r) c l g h1 = Next l' g' h1'" "allowed c (h1 ++ h2)" "disj h1 h2"
    for c l g h1 l' g' h1' h2 using q_exec_frame that by simp
  show "exec (q_prog a r) c l g (h1 ++ h2) = Exit" if "exec (q_prog a r) c l g h1 = Exit"
    for c l g h1 h2 using q_exec_frame_exit that by simp
  show "kind (q_prog a r) l = KAct \<and> (\<forall>c g. allowed c h \<longrightarrow> exec (q_prog a r) c l g h = Exit \<or>
        (\<exists>l' h'. exec (q_prog a r) c l g h = Next l' g h' \<and> q_out a r p t l' n h'))"
    if "pc_good t False l" "pc_head l" "pc_loop p t l n h" for t l n h
    using that(2) pc_round [OF assms(2) that(1,3), of a r] by (simp add: pc_head_def)
qed

lemma pc_res_empty: "unat m < 2 ^ 31 \<Longrightarrow> pc_res (empty_queue m) Map.empty"
  unfolding pc_res_def by (rule exI [of _ "[]"]) (simp add: empty_queue_ok, simp add: pc_holds_def empty_queue_def)

lemma pc_out_start: "q_out a r p t (start_thread p t) (pc_own t (empty_queue m)) Map.empty"
  by (cases t; rule out_end; simp add: pc_loop_def fresh_local_def empty_queue_def)

text \<open>
  What is shown of every reachable state; \<open>taken\<close> says whether the lock is held. No fault, no
  error message of the reader; a taken lock means exactly one thread inside its critical section,
  a free one none, and then the list is well-formed and holds the consecutive values; a
  thread that is inside, or any thread when the lock is free, can take its next step.
\<close>

definition pc_ok :: "(thread, tlocal, queue_t, qnode_t, 'k) prog \<Rightarrow> bool \<Rightarrow>
    (thread, tlocal, queue_t, qnode_t, 'k) sys \<Rightarrow> bool" where
  "pc_ok P taken s \<longleftrightarrow> (\<forall>f. st s \<noteq> Crashed f) \<and> errors (locals s Reader) = [] \<and>
     (if taken then \<exists>!t. inside (locals s t)
      else (\<forall>t. \<not> inside (locals s t)) \<and>
        (\<exists>h xs. h \<subseteq>\<^sub>m cells s \<and> queue_ok (glob s) h xs \<and> pc_holds (glob s) xs)) \<and>
     (st s = Running \<longrightarrow> (\<forall>t. (taken \<longrightarrow> inside (locals s t)) \<longrightarrow> (\<exists>s'. do_step P (t, ChFail) s = Some s')))"

text \<open>The three threads over any lock, started on an empty queue.\<close>

locale pc_system = lock_iface acq rel locked lock_ok
  for acq :: "thread \<Rightarrow> 'k \<Rightarrow> 'k option"
    and rel :: "thread \<Rightarrow> 'k \<Rightarrow> 'k"
    and locked :: "'k \<Rightarrow> bool"
    and lock_ok :: "'k \<Rightarrow> bool" +
  fixes p :: qprogram
  assumes shape: "pc_shape p"

sublocale pc_system \<subseteq> threads: lock_program acq rel locked lock_ok "q_prog acq rel"
    pc_res pc_own pc_head "pc_loop p" pc_good
  by (rule pc_lock_program [OF lock_iface_axioms shape])

context pc_system
begin

lemma start_inv:
  "lock_ok k \<Longrightarrow> \<not> locked k \<Longrightarrow> unat m < 2 ^ 31 \<Longrightarrow> threads.lp_inv (threads_start p (empty_queue m) k)"
  by (rule threads.inv_initially) (simp_all add: threads_start_def pc_res_empty pc_out_start)

theorem pc_correct:
  assumes "lp_reach (q_prog acq rel) (threads_start p (empty_queue m) k) s"
    and "lock_ok k" and "\<not> locked k" and "unat m < 2 ^ 31"
  shows "pc_ok (q_prog acq rel) (locked (lk s)) s"
proof -
  have inv: "threads.lp_inv s"
    using assms(1) start_inv [OF assms(2-4)] by (rule threads.lp_reach_inv)
  have 1: "(\<forall>f. st s \<noteq> Crashed f) \<and> errors (locals s Reader) = []"
    using threads.inv_not_crashed [OF inv] threads.inv_good [OF inv, of Reader] by (auto simp: pc_good_def)
  show ?thesis
  proof (cases "locked (lk s)")
    case True
    obtain t where "inside (locals s t)" "\<And>u. u \<noteq> t \<Longrightarrow> \<not> inside (locals s u)"
      "st s = Running \<Longrightarrow> \<exists>s'. do_step (q_prog acq rel) (t, ChFail) s = Some s'"
      using threads.inv_holder [OF inv True] unfolding pc_good_def by metis
    with 1 True show ?thesis unfolding pc_ok_def by (metis (full_types))
  next
    case False
    with 1 threads.inv_free [OF inv False] threads.inv_resource [OF inv False]
      threads.inv_free_step [OF inv False] show ?thesis
      by (auto simp: pc_ok_def pc_res_def pc_good_def)
  qed
qed

end

end
