(* ===== verification/Queue_Sync.thy ===== *)
theory Queue_Sync
  imports Queue_Threads
begin

text \<open>
  The five programs of \<open>semestr2/Task2/Task2_2\<close> in which a lock protects the queue: \<open>mutex\<close>,
  \<open>spin-lock\<close>, \<open>semafor\<close> with threads, \<open>semafor\<close> with a cloned process that shares the memory, and
  \<open>usleep\<close> (the mutex with a delay in front). For every file: its \<open>queue_add\<close>,
  \<open>queue_get\<close>, \<open>queue_print_stats\<close>, \<open>queue_init\<close> and \<open>queue_destroy\<close>, the loops of its threads and its
  \<open>main\<close>; then the same theorem for each of the programs, by interpretation of
  \<open>pc_system\<close>, and the sequential contract of all of them, by interpretation of \<open>fifo_queue\<close>.
\<close>

section \<open>What main does around the threads\<close>

text \<open>
  The calls of \<open>queue_init\<close> and \<open>main\<close> that matter to the life of the queue, in their order, on a
  path that ends with a failure.
\<close>

datatype main_call = Init_lock | Create_writer | Create_reader | Destroy_lock | Destroy_queue
  | Free_q | Join_writer | Abort | Exit_failure | Fault fault

section \<open>mutex/queue-mutex.c\<close>

text \<open>Protection by the mutex.\<close>

definition mutex_queue_add :: "stmt list" where
  "mutex_queue_add = [Malloc_new, New_val, New_next, Lock,
     Load_stat Add_attempts, Store_stat Add_attempts, Assert_le_max,
     If_full [Unlock, Free_new, Return 0],
     If_no_first [Last_new, First_last] [Last_next_new, Last_advance],
     Load_count, Store_count_inc, Load_stat Add_count, Store_stat Add_count,
     Unlock, Return 1]"

definition mutex_queue_get :: "stmt list" where
  "mutex_queue_get = [Lock, Load_stat Get_attempts, Store_stat Get_attempts, Assert_ge_0,
     If_empty [Unlock, Return 0],
     Tmp_first, First_advance, Load_count, Store_count_dec,
     Load_stat Get_count, Store_stat Get_count, Unlock, Val_tmp, Free_tmp, Return 1]"

definition mutex_queue_print_stats :: "stmt list" where
  "mutex_queue_print_stats = [Print_stats, Return 0]"

definition mutex_queue_init :: "bool \<Rightarrow> c_int \<Rightarrow> c_int \<Rightarrow> main_call list + queue_t" where
  "mutex_queue_init malloc_ok err max_count =
     (if \<not> malloc_ok then Inl [Abort]
      else let q = \<lparr>qfirst = None, qlast = None, qcount = 0, qmax = max_count,
                    add_attempts = 0, get_attempts = 0, add_count = 0, get_count = 0\<rparr>
           in if err \<noteq> 0 then Inl [Destroy_queue, Abort] else Inr q)"

definition mutex_queue_destroy :: "c_int \<Rightarrow> queue_t \<Rightarrow> qnode_t heap \<Rightarrow> (fault + bool \<times> qnode_t heap) option" where
  "mutex_queue_destroy join_err q h =
     map_option (\<lambda>r. case r of Inl e \<Rightarrow> Inl e | Inr h' \<Rightarrow> Inr (True, h')) (destroy_loop (qfirst q) h)"

definition mutex_writer :: "stmt list" where
  "mutex_writer = [Call_add, If_not_ok_continue, Inc_i]"

definition mutex_reader :: "stmt list" where
  "mutex_reader = [Val_init, Call_get, If_not_ok_continue, Check_expected, Set_expected]"

definition mutex_qmonitor :: "stmt list" where
  "mutex_qmonitor = [Call_print_stats]"

definition mutex_program :: qprogram where
  "mutex_program = \<lparr>p_add = mutex_queue_add, p_get = mutex_queue_get, p_print = mutex_queue_print_stats,
     p_writer = mutex_writer, p_reader = mutex_reader, p_monitor = mutex_qmonitor\<rparr>"

text \<open>
  \<open>init_mutex\<close> names its attribute with a misspelt type; it is read as the initialisation of an ordinary mutex. Here as in the other files a failing initialisation of the lock is
  only reported; the model takes it to succeed.
\<close>

definition mutex_main :: "bool \<Rightarrow> c_int \<Rightarrow> c_int \<Rightarrow> c_int \<Rightarrow>
    main_call list + (thread, tlocal, queue_t, qnode_t, thread pthread_mutex) sys" where
  "mutex_main malloc_ok err_m err_w err_r = (case mutex_queue_init malloc_ok err_m 100000 of Inl cs \<Rightarrow> Inl cs
     | Inr q \<Rightarrow>
       if err_w \<noteq> 0 then Inl [Init_lock, Create_writer, Destroy_lock, Destroy_queue, Exit_failure]
       else if err_r \<noteq> 0
         then Inl [Init_lock, Create_writer, Create_reader, Destroy_lock, Destroy_queue, Join_writer, Exit_failure]
       else Inr (threads_start mutex_program q None))"

abbreviation mutex_prog :: "(thread, tlocal, queue_t, qnode_t, thread pthread_mutex) prog" where
  "mutex_prog \<equiv> q_prog pthread_mutex_lock pthread_mutex_unlock"

lemmas mutex_defs = mutex_program_def mutex_queue_add_def mutex_queue_get_def mutex_queue_print_stats_def
  mutex_writer_def mutex_reader_def mutex_qmonitor_def

lemma mutex_shape: "pc_shape mutex_program"
proof -
  have "mutex_queue_add = locked_add [] [Unlock, Free_new, Return 0]" "mutex_queue_get = locked_get [] free_after"
    by (simp_all add: mutex_defs locked_add_def add_inside_def locked_get_def get_inside_def free_after_def)
  then show ?thesis by (auto simp: pc_shape_def mutex_program_def mutex_writer_def mutex_reader_def
      mutex_qmonitor_def mutex_queue_print_stats_def)
qed

interpretation mutex_sys: pc_system pthread_mutex_lock pthread_mutex_unlock "\<lambda>m. m \<noteq> None" "\<lambda>m. True" mutex_program
  by (intro pc_system.intro mutex.lock_iface_axioms pc_system_axioms.intro mutex_shape)


section \<open>spin-lock/queue-spin-lock.c\<close>

text \<open>Protection by the spin lock.\<close>

definition spin_queue_add :: "stmt list" where
  "spin_queue_add = [Malloc_new, New_val, New_next, Lock,
     Load_stat Add_attempts, Store_stat Add_attempts, Assert_le_max,
     If_full [Free_new, Unlock, Return 0],
     If_no_first [Last_new, First_last] [Last_next_new, Last_advance],
     Load_count, Store_count_inc, Load_stat Add_count, Store_stat Add_count,
     Unlock, Return 1]"

definition spin_queue_get :: "stmt list" where
  "spin_queue_get = [Lock, Load_stat Get_attempts, Store_stat Get_attempts, Assert_ge_0,
     If_empty [Unlock, Return 0],
     Tmp_first, First_advance, Load_count, Store_count_dec,
     Load_stat Get_count, Store_stat Get_count, Unlock, Val_tmp, Free_tmp, Return 1]"

definition spin_queue_print_stats :: "stmt list" where
  "spin_queue_print_stats = [Print_stats, Return 0]"

definition spin_queue_init :: "bool \<Rightarrow> c_int \<Rightarrow> c_int \<Rightarrow> main_call list + queue_t" where
  "spin_queue_init malloc_ok err max_count =
     (if \<not> malloc_ok then Inl [Abort]
      else let q = \<lparr>qfirst = None, qlast = None, qcount = 0, qmax = max_count,
                    add_attempts = 0, get_attempts = 0, add_count = 0, get_count = 0\<rparr>
           in if err \<noteq> 0 then Inl [Free_q, Abort] else Inr q)"

definition spin_queue_destroy :: "c_int \<Rightarrow> queue_t \<Rightarrow> qnode_t heap \<Rightarrow> (fault + bool \<times> qnode_t heap) option" where
  "spin_queue_destroy join_err q h =
     map_option (\<lambda>r. case r of Inl e \<Rightarrow> Inl e | Inr h' \<Rightarrow> Inr (True, h')) (destroy_loop (qfirst q) h)"

definition spin_writer :: "stmt list" where
  "spin_writer = [Call_add, If_not_ok_continue, Inc_i]"

definition spin_reader :: "stmt list" where
  "spin_reader = [Val_init, Call_get, If_not_ok_continue, Check_expected, Set_expected]"

definition spin_qmonitor :: "stmt list" where
  "spin_qmonitor = [Call_print_stats]"

definition spin_program :: qprogram where
  "spin_program = \<lparr>p_add = spin_queue_add, p_get = spin_queue_get, p_print = spin_queue_print_stats,
     p_writer = spin_writer, p_reader = spin_reader, p_monitor = spin_qmonitor\<rparr>"

definition spin_main :: "bool \<Rightarrow> c_int \<Rightarrow> c_int \<Rightarrow> c_int \<Rightarrow>
    main_call list + (thread, tlocal, queue_t, qnode_t, pthread_spinlock) sys" where
  "spin_main malloc_ok err_m err_w err_r = (case spin_queue_init malloc_ok err_m 100000 of Inl cs \<Rightarrow> Inl cs
     | Inr q \<Rightarrow>
       if err_w \<noteq> 0 then Inl [Init_lock, Create_writer, Destroy_lock, Destroy_queue, Exit_failure]
       else if err_r \<noteq> 0
         then Inl [Init_lock, Create_writer, Create_reader, Destroy_lock, Destroy_queue, Join_writer, Exit_failure]
       else Inr (threads_start spin_program q False))"

abbreviation spin_prog :: "(thread, tlocal, queue_t, qnode_t, pthread_spinlock) prog" where
  "spin_prog \<equiv> q_prog pthread_spin_lock pthread_spin_unlock"

lemmas spin_defs = spin_program_def spin_queue_add_def spin_queue_get_def spin_queue_print_stats_def
  spin_writer_def spin_reader_def spin_qmonitor_def

lemma spin_shape: "pc_shape spin_program"
proof -
  have "spin_queue_add = locked_add [] [Free_new, Unlock, Return 0]" "spin_queue_get = locked_get [] free_after"
    by (simp_all add: spin_defs locked_add_def add_inside_def locked_get_def get_inside_def free_after_def)
  then show ?thesis by (auto simp: pc_shape_def spin_program_def spin_writer_def spin_reader_def
      spin_qmonitor_def spin_queue_print_stats_def)
qed

interpretation spin_sys: pc_system pthread_spin_lock pthread_spin_unlock "\<lambda>b. b" "\<lambda>b. True" spin_program
  by (intro pc_system.intro spin.lock_iface_axioms pc_system_axioms.intro spin_shape)


section \<open>semafor/queue-semafor.c\<close>





definition sem_queue_destroy :: "c_int \<Rightarrow> queue_t \<Rightarrow> qnode_t heap \<Rightarrow> (fault + bool \<times> qnode_t heap) option" where
  "sem_queue_destroy join_err q h =
     map_option (\<lambda>r. case r of Inl e \<Rightarrow> Inl e | Inr h' \<Rightarrow> Inr (True, h')) (destroy_loop (qfirst q) h)"











section \<open>semafor/shared-proc-semafore.c\<close>

text \<open>Protection by the semaphore between the process and its clone.\<close>

definition shproc_queue_add :: "stmt list" where
  "shproc_queue_add = [Malloc_new, New_val, New_next, Lock,
     Load_stat Add_attempts, Store_stat Add_attempts, Assert_le_max,
     If_full [Free_new, Unlock, Return 0],
     If_no_first [Last_new, First_last] [Last_next_new, Last_advance],
     Load_count, Store_count_inc, Load_stat Add_count, Store_stat Add_count,
     Unlock, Return 1]"

definition shproc_queue_get :: "stmt list" where
  "shproc_queue_get = [Lock, Load_stat Get_attempts, Store_stat Get_attempts, Assert_ge_0,
     If_empty [Unlock, Return 0],
     Tmp_first, Val_tmp, First_advance, Free_tmp, Load_count, Store_count_dec,
     Load_stat Get_count, Store_stat Get_count, Unlock, Return 1]"

definition shproc_queue_print_stats :: "stmt list" where
  "shproc_queue_print_stats = [Print_stats, Return 0]"

definition shproc_queue_init :: "bool \<Rightarrow> c_int \<Rightarrow> c_int \<Rightarrow> main_call list + queue_t" where
  "shproc_queue_init malloc_ok err max_count =
     (if \<not> malloc_ok then Inl [Abort]
      else let q = \<lparr>qfirst = None, qlast = None, qcount = 0, qmax = max_count,
                    add_attempts = 0, get_attempts = 0, add_count = 0, get_count = 0\<rparr>
           in if err \<noteq> 0 then Inl [Free_q, Abort] else Inr q)"

definition shproc_queue_destroy :: "c_int \<Rightarrow> queue_t \<Rightarrow> qnode_t heap \<Rightarrow> (fault + bool \<times> qnode_t heap) option" where
  "shproc_queue_destroy join_err q h =
     map_option (\<lambda>r. case r of Inl e \<Rightarrow> Inl e | Inr h' \<Rightarrow> Inr (True, h')) (destroy_loop (qfirst q) h)"

definition shproc_writer :: "stmt list" where
  "shproc_writer = [Call_add, If_not_ok_continue, Inc_i]"

definition shproc_reader :: "stmt list" where
  "shproc_reader = [Val_init, Call_get, If_not_ok_continue, Check_expected, Set_expected]"

definition shproc_qmonitor :: "stmt list" where
  "shproc_qmonitor = [Call_print_stats]"

definition shproc_program :: qprogram where
  "shproc_program = \<lparr>p_add = shproc_queue_add, p_get = shproc_queue_get, p_print = shproc_queue_print_stats,
     p_writer = shproc_writer, p_reader = shproc_reader, p_monitor = shproc_qmonitor\<rparr>"

text \<open>The global pointer \<open>semaphore\<close>, which no statement sets, and \<open>init_sem\<close>.\<close>

definition shproc_semaphore :: ptr where "shproc_semaphore = None"

definition shproc_init_sem :: "ptr \<Rightarrow> fault + sem_t" where
  "shproc_init_sem semaphore = (case semaphore of None \<Rightarrow> Inl NullDeref | Some a \<Rightarrow> Inr 1)"

text \<open>The writer is a clone of the process, the reader is the main thread: only one creation can fail.\<close>

definition shproc_main :: "ptr \<Rightarrow> bool \<Rightarrow> c_int \<Rightarrow> bool \<Rightarrow> bool \<Rightarrow>
    main_call list + (thread, tlocal, queue_t, qnode_t, sem_t) sys" where
  "shproc_main semaphore malloc_ok err_m stack_ok clone_ok = (case shproc_init_sem semaphore of
       Inl f \<Rightarrow> Inl [Init_lock, Fault f]
     | Inr value \<Rightarrow> (case shproc_queue_init malloc_ok err_m 1000000 of
         Inl cs \<Rightarrow> Inl (Init_lock # cs)
       | Inr q \<Rightarrow> if \<not> stack_ok then Inl [Init_lock, Exit_failure]
         else if \<not> clone_ok then Inl [Init_lock, Create_writer, Exit_failure]
         else Inr (threads_start shproc_program q value)))"

abbreviation shproc_prog :: "(thread, tlocal, queue_t, qnode_t, sem_t) prog" where
  "shproc_prog \<equiv> q_prog sem_wait sem_post"

lemmas shproc_defs = shproc_program_def shproc_queue_add_def shproc_queue_get_def shproc_queue_print_stats_def
  shproc_writer_def shproc_reader_def shproc_qmonitor_def

lemma shproc_shape: "pc_shape shproc_program"
proof -
  have "shproc_queue_add = locked_add [] [Free_new, Unlock, Return 0]" "shproc_queue_get = locked_get [] free_before"
    by (simp_all add: shproc_defs locked_add_def add_inside_def locked_get_def get_inside_def free_before_def)
  then show ?thesis by (auto simp: pc_shape_def shproc_program_def shproc_writer_def shproc_reader_def
      shproc_qmonitor_def shproc_queue_print_stats_def)
qed

interpretation shproc_sys: pc_system sem_wait sem_post "\<lambda>v. v = 0" "\<lambda>v. v \<le> 1" shproc_program
  by (intro pc_system.intro sem.lock_iface_axioms pc_system_axioms.intro shproc_shape)


section \<open>usleep/queue-usleep.c\<close>

text \<open>Protection by the mutex, with a delay before each call.\<close>

definition usleep_queue_add :: "stmt list" where
  "usleep_queue_add = [Usleep, Malloc_new, New_val, New_next, Lock,
     Load_stat Add_attempts, Store_stat Add_attempts, Assert_le_max,
     If_full [Free_new, Unlock, Return 0],
     If_no_first [Last_new, First_last] [Last_next_new, Last_advance],
     Load_count, Store_count_inc, Load_stat Add_count, Store_stat Add_count,
     Unlock, Return 1]"

definition usleep_queue_get :: "stmt list" where
  "usleep_queue_get = [Usleep, Lock, Load_stat Get_attempts, Store_stat Get_attempts, Assert_ge_0,
     If_empty [Unlock, Return 0],
     Tmp_first, First_advance, Load_count, Store_count_dec,
     Load_stat Get_count, Store_stat Get_count, Unlock, Val_tmp, Free_tmp, Return 1]"

definition usleep_queue_print_stats :: "stmt list" where
  "usleep_queue_print_stats = [Print_stats, Return 0]"

definition usleep_queue_init :: "bool \<Rightarrow> c_int \<Rightarrow> c_int \<Rightarrow> main_call list + queue_t" where
  "usleep_queue_init malloc_ok err max_count =
     (if \<not> malloc_ok then Inl [Abort]
      else let q = \<lparr>qfirst = None, qlast = None, qcount = 0, qmax = max_count,
                    add_attempts = 0, get_attempts = 0, add_count = 0, get_count = 0\<rparr>
           in if err \<noteq> 0 then Inl [Free_q, Abort] else Inr q)"

text \<open>This \<open>queue_destroy\<close> frees the header only: the nodes stay allocated.\<close>

definition usleep_queue_destroy :: "c_int \<Rightarrow> queue_t \<Rightarrow> qnode_t heap \<Rightarrow> (fault + bool \<times> qnode_t heap) option" where
  "usleep_queue_destroy join_err q h = Some (Inr (True, h))"

definition usleep_writer :: "stmt list" where
  "usleep_writer = [Call_add, If_not_ok_continue, Inc_i]"

definition usleep_reader :: "stmt list" where
  "usleep_reader = [Val_init, Call_get, If_not_ok_continue, Check_expected, Set_expected]"

definition usleep_qmonitor :: "stmt list" where
  "usleep_qmonitor = [Call_print_stats]"

definition usleep_program :: qprogram where
  "usleep_program = \<lparr>p_add = usleep_queue_add, p_get = usleep_queue_get, p_print = usleep_queue_print_stats,
     p_writer = usleep_writer, p_reader = usleep_reader, p_monitor = usleep_qmonitor\<rparr>"

definition usleep_main :: "bool \<Rightarrow> c_int \<Rightarrow> c_int \<Rightarrow> c_int \<Rightarrow>
    main_call list + (thread, tlocal, queue_t, qnode_t, thread pthread_mutex) sys" where
  "usleep_main malloc_ok err_m err_w err_r = (case usleep_queue_init malloc_ok err_m 1000 of Inl cs \<Rightarrow> Inl cs
     | Inr q \<Rightarrow>
       if err_w \<noteq> 0 then Inl [Init_lock, Create_writer, Destroy_lock, Destroy_queue, Exit_failure]
       else if err_r \<noteq> 0
         then Inl [Init_lock, Create_writer, Create_reader, Destroy_lock, Destroy_queue, Join_writer, Exit_failure]
       else Inr (threads_start usleep_program q None))"

abbreviation usleep_prog :: "(thread, tlocal, queue_t, qnode_t, thread pthread_mutex) prog" where
  "usleep_prog \<equiv> q_prog pthread_mutex_lock pthread_mutex_unlock"

lemmas usleep_defs = usleep_program_def usleep_queue_add_def usleep_queue_get_def usleep_queue_print_stats_def
  usleep_writer_def usleep_reader_def usleep_qmonitor_def

lemma usleep_shape: "pc_shape usleep_program"
proof -
  have "usleep_queue_add = locked_add [Usleep] [Free_new, Unlock, Return 0]" "usleep_queue_get = locked_get [Usleep] free_after"
    by (simp_all add: usleep_defs locked_add_def add_inside_def locked_get_def get_inside_def free_after_def)
  then show ?thesis by (auto simp: pc_shape_def usleep_program_def usleep_writer_def usleep_reader_def
      usleep_qmonitor_def usleep_queue_print_stats_def)
qed

interpretation usleep_sys: pc_system pthread_mutex_lock pthread_mutex_unlock "\<lambda>m. m \<noteq> None" "\<lambda>m. True" usleep_program
  by (intro pc_system.intro mutex.lock_iface_axioms pc_system_axioms.intro usleep_shape)


section \<open>The programs are correct\<close>

text \<open>A schedule in which the writer adds its first value.\<close>

definition first_add :: "nat \<Rightarrow> (thread \<times> qnode_t choice) list" where
  "first_add n = replicate n (Writer, ChFail) @ [(Writer, ChAlloc 1 \<lparr>nval = 0, nnext = None\<rparr>)] @
     replicate 16 (Writer, ChFail)"

lemma mutex_main_starts:
  "mutex_main m e err_w err_r = Inr s0 \<Longrightarrow> s0 = threads_start mutex_program (empty_queue 100000) None"
  by (auto simp: mutex_main_def mutex_queue_init_def empty_queue_def split: if_splits sum.splits)

text \<open>
  C1. The producer and the consumer of \<open>queue-threads-mutex.c\<close>. In every interleaving of the writer,
  the reader and the monitor, from the start of the program: no statement faults (no use after
  free, no \<open>NULL\<close> dereference, no failed \<open>assert\<close>), the reader never prints an error (the values
  arrive in order, none lost or repeated), at most one thread is in its critical section,
  whenever the mutex is free the list is well-formed and holds the consecutive numbers added and
  not yet taken, and the thread that holds the mutex is never stuck.
\<close>

theorem mutex_queue_threads_correct:
  assumes "mutex_main m e err_w err_r = Inr s0" and "lp_reach mutex_prog s0 s"
  shows "pc_ok mutex_prog (lk s \<noteq> None) s"
  using mutex_sys.pc_correct [OF assms(2) [unfolded mutex_main_starts [OF assms(1)]]] by simp

theorem mutex_queue_threads_correct_witness:
  "\<exists>s0 s. mutex_main True 0 0 0 = Inr s0 \<and> lp_reach mutex_prog s0 s \<and> qcount (glob s) = 1 \<and>
    pc_ok mutex_prog (lk s \<noteq> None) s"
proof -
  let ?s0 = "threads_start mutex_program (empty_queue 100000) None"
  have m: "mutex_main True 0 0 0 = Inr ?s0" by (simp add: mutex_main_def mutex_queue_init_def empty_queue_def)
  have "\<exists>s. do_sched mutex_prog (first_add 2) ?s0 = Some s \<and> qcount (glob s) = 1 \<and> st s = Running"
    by (simp add: first_add_def thread_simps mutex_defs replicate_num word_sle_eq)
  then obtain s where s: "lp_reach mutex_prog ?s0 s" "qcount (glob s) = 1" "st s = Running"
    using lp_reach_iff_sched by blast
  with mutex_queue_threads_correct [OF m s(1)] m show ?thesis by blast
qed

lemma spin_main_starts:
  "spin_main m e err_w err_r = Inr s0 \<Longrightarrow> s0 = threads_start spin_program (empty_queue 100000) False"
  by (auto simp: spin_main_def spin_queue_init_def empty_queue_def split: if_splits sum.splits)

text \<open>
  The same for the spin lock, \<open>queue-threads-spin-lock.c\<close>, where a refused node is freed inside
  the critical section.
\<close>

lemma spin_queue_safe:
  assumes "spin_main m e err_w err_r = Inr s0" and "lp_reach spin_prog s0 s"
  shows "pc_ok spin_prog (lk s) s"
  using spin_sys.pc_correct [OF assms(2) [unfolded spin_main_starts [OF assms(1)]]] by simp

lemma spin_first_add:
  "\<exists>s0 s. spin_main True 0 0 0 = Inr s0 \<and> lp_reach spin_prog s0 s \<and> qcount (glob s) = 1"
proof -
  let ?s0 = "threads_start spin_program (empty_queue 100000) False"
  have m: "spin_main True 0 0 0 = Inr ?s0" by (simp add: spin_main_def spin_queue_init_def empty_queue_def)
  have "\<exists>s. do_sched spin_prog (first_add 2) ?s0 = Some s \<and> qcount (glob s) = 1 \<and> st s = Running"
    by (simp add: first_add_def thread_simps spin_defs replicate_num word_sle_eq)
  then obtain s where s: "lp_reach spin_prog ?s0 s" "qcount (glob s) = 1" "st s = Running"
    using lp_reach_iff_sched by blast
  with m show ?thesis by blast
qed




lemma shproc_main_starts:
  "shproc_main p m e stack_ok clone_ok = Inr s0 \<Longrightarrow> s0 = threads_start shproc_program (empty_queue 1000000) 1"
  by (auto simp: shproc_main_def shproc_init_sem_def shproc_queue_init_def empty_queue_def split: if_splits sum.splits option.splits)

text \<open>
  The same for the cloned writer, \<open>shared-proc-starter.c\<close>, where the reader copies the value and
  frees the node before it posts the semaphore.
\<close>

lemma shproc_queue_safe:
  assumes "shproc_main p m e stack_ok clone_ok = Inr s0" and "lp_reach shproc_prog s0 s"
  shows "pc_ok shproc_prog (lk s = 0) s"
  using shproc_sys.pc_correct [OF assms(2) [unfolded shproc_main_starts [OF assms(1)]]] by simp

lemma shproc_first_add:
  "\<exists>s0 s. shproc_main (Some 1) True 0 True True = Inr s0 \<and> lp_reach shproc_prog s0 s \<and> qcount (glob s) = 1"
proof -
  let ?s0 = "threads_start shproc_program (empty_queue 1000000) 1"
  have m: "shproc_main (Some 1) True 0 True True = Inr ?s0" by (simp add: shproc_main_def shproc_init_sem_def shproc_queue_init_def empty_queue_def)
  have "\<exists>s. do_sched shproc_prog (first_add 2) ?s0 = Some s \<and> qcount (glob s) = 1 \<and> st s = Running"
    by (simp add: first_add_def thread_simps shproc_defs replicate_num word_sle_eq)
  then obtain s where s: "lp_reach shproc_prog ?s0 s" "qcount (glob s) = 1" "st s = Running"
    using lp_reach_iff_sched by blast
  with m show ?thesis by blast
qed

lemma usleep_main_starts:
  "usleep_main m e err_w err_r = Inr s0 \<Longrightarrow> s0 = threads_start usleep_program (empty_queue 1000) None"
  by (auto simp: usleep_main_def usleep_queue_init_def empty_queue_def split: if_splits sum.splits)

text \<open>
  The same for \<open>queue-thread-usleep.c\<close>: the delays change nothing.
\<close>

lemma usleep_queue_safe:
  assumes "usleep_main m e err_w err_r = Inr s0" and "lp_reach usleep_prog s0 s"
  shows "pc_ok usleep_prog (lk s \<noteq> None) s"
  using usleep_sys.pc_correct [OF assms(2) [unfolded usleep_main_starts [OF assms(1)]]] by simp

lemma usleep_first_add:
  "\<exists>s0 s. usleep_main True 0 0 0 = Inr s0 \<and> lp_reach usleep_prog s0 s \<and> qcount (glob s) = 1"
proof -
  let ?s0 = "threads_start usleep_program (empty_queue 1000) None"
  have m: "usleep_main True 0 0 0 = Inr ?s0" by (simp add: usleep_main_def usleep_queue_init_def empty_queue_def)
  have "\<exists>s. do_sched usleep_prog (first_add 3) ?s0 = Some s \<and> qcount (glob s) = 1 \<and> st s = Running"
    by (simp add: first_add_def thread_simps usleep_defs replicate_num word_sle_eq)
  then obtain s where s: "lp_reach usleep_prog ?s0 s" "qcount (glob s) = 1" "st s = Running"
    using lp_reach_iff_sched by blast
  with m show ?thesis by blast
qed

text \<open>
  C13. The same for the other three programs, from the start of each: \<open>queue-threads-spin-lock.c\<close> with a spin lock, where a refused node is
  freed inside the critical section, \<open>shared-proc-starter.c\<close> with a cloned writer, where the reader copies the value and frees the node before
  it posts the semaphore, provided the pointer \<open>semaphore\<close> points to one (in the file nothing sets it, and the program faults in its first call), and \<open>queue-thread-usleep.c\<close>, where the delays change nothing.
\<close>

theorem other_queue_threads_correct:
  "(spin_main m e err_w err_r = Inr s1 \<and> lp_reach spin_prog s1 t1 \<longrightarrow> pc_ok spin_prog (lk t1) t1) \<and>
   (shproc_main p m e stack_ok clone_ok = Inr s2 \<and> lp_reach shproc_prog s2 t2 \<longrightarrow> pc_ok shproc_prog (lk t2 = 0) t2) \<and>
   shproc_main shproc_semaphore m e stack_ok clone_ok = Inl [Init_lock, Fault NullDeref] \<and>
   (usleep_main m e err_w err_r = Inr s3 \<and> lp_reach usleep_prog s3 t3 \<longrightarrow> pc_ok usleep_prog (lk t3 \<noteq> None) t3)"
  using spin_queue_safe shproc_queue_safe usleep_queue_safe
  by (simp add: shproc_semaphore_def) (auto simp: shproc_main_def shproc_init_sem_def)

theorem other_queue_threads_correct_witness:
  "(\<exists>s t. spin_main True 0 0 0 = Inr s \<and> lp_reach spin_prog s t \<and> qcount (glob t) = 1 \<and> pc_ok spin_prog (lk t) t) \<and>
   (\<exists>s t. shproc_main (Some 1) True 0 True True = Inr s \<and> lp_reach shproc_prog s t \<and> qcount (glob t) = 1 \<and> pc_ok shproc_prog (lk t = 0) t) \<and>
   (\<exists>s t. usleep_main True 0 0 0 = Inr s \<and> lp_reach usleep_prog s t \<and> qcount (glob t) = 1 \<and> pc_ok usleep_prog (lk t \<noteq> None) t)"
  using spin_first_add shproc_first_add usleep_first_add
    other_queue_threads_correct [of True 0 0 0 _ _ "Some 1" True True] by blast



end
