(* ===== verification/Queue_Condvar.thy ===== *)
theory Queue_Condvar
  imports Queue_Threads
begin

text \<open>
  The queue with a mutex and a condition variable, \<open>semestr2/Task2/Task2_2/cond-var\<close>. The flag
  \<open>shared_data\<close> makes the producer and the consumer alternate. The theory shows that they do, that
  no statement faults, and that no wake-up is lost: the two threads never both wait.

  \<open>pthread_cond_wait\<close> is modelled as the threads library documents it: the caller becomes a waiter
  and releases the mutex in one action with respect to the other threads (they can only signal
  while they hold the mutex), is blocked until it is signalled or woken spuriously, and
  takes the mutex again. \<open>pthread_cond_signal\<close> wakes one waiter, the environment chooses which.
\<close>

section \<open>State and code\<close>

text \<open>The globals: the queue, the flag, and who waits on \<open>cond\<close>.\<close>

record cv_glob =
  cvq :: queue_t
  shared_data :: event
  waiting :: "thread \<Rightarrow> bool"

definition condvar_queue_add :: "stmt list" where
  "condvar_queue_add = [Lock, Cond (While_add_wait Writer), Malloc_new, New_val, New_next,
     If_no_first [Last_new, First_last] [Last_next_new, Last_advance],
     Load_count, Store_count_inc, Load_stat Add_count, Store_stat Add_count,
     Cond (Set_shared NOK), Cond Signal, Unlock, Return 1]"

definition condvar_queue_get :: "stmt list" where
  "condvar_queue_get = [Lock, Cond (While_get_wait Reader), Tmp_first, Val_tmp, First_advance,
     Load_count, Store_count_dec, Load_stat Get_count, Store_stat Get_count,
     Cond (Set_shared OK), Cond Signal, Unlock, Free_tmp, Return 1]"

definition condvar_queue_print_stats :: "stmt list" where
  "condvar_queue_print_stats = [Print_stats, Return 0]"

definition condvar_writer :: "stmt list" where
  "condvar_writer = [Call_add, If_not_ok_continue, Inc_i]"

definition condvar_reader :: "stmt list" where
  "condvar_reader = [Val_init, Call_get, If_not_ok_continue, Check_expected, Set_expected]"

definition condvar_qmonitor :: "stmt list" where
  "condvar_qmonitor = [Call_print_stats]"

definition condvar_queue_destroy :: "c_int \<Rightarrow> queue_t \<Rightarrow> qnode_t heap \<Rightarrow> (fault + bool \<times> qnode_t heap) option" where
  "condvar_queue_destroy join_err q h =
     map_option (\<lambda>r. case r of Inl e \<Rightarrow> Inl e | Inr h' \<Rightarrow> Inr (True, h')) (destroy_loop (qfirst q) h)"

text \<open>The wait of \<open>queue_add\<close> and \<open>queue_get\<close>: one round of the loop around \<open>pthread_cond_wait\<close>.\<close>

definition wait_round :: "thread \<Rightarrow> stmt \<Rightarrow> stmt list" where
  "wait_round t again = [Cond (Wait_enter t), Unlock, Cond (Wait_blocked t), Lock, again]"

definition wake_one :: "qnode_t choice \<Rightarrow> (thread \<Rightarrow> bool) \<Rightarrow> thread \<Rightarrow> bool" where
  "wake_one c w = (if w Writer \<and> (\<not> w Reader \<or> c = ChFail) then w(Writer := False) else w(Reader := False))"

text \<open>\<open>l\<close> is the thread after the statement was taken off its code.\<close>

fun cv_stmt :: "qnode_t choice \<Rightarrow> cond_stmt \<Rightarrow> tlocal \<Rightarrow> cv_glob \<Rightarrow> tlocal \<times> cv_glob" where
  "cv_stmt c (While_add_wait t) l g =
     (if qcount (cvq g) = qmax (cvq g) \<or> shared_data g = NOK
      then (l\<lparr>code := wait_round t (Cond (While_add_wait t)) @ code l\<rparr>, g) else (l, g))"
| "cv_stmt c (While_get_wait t) l g =
     (if qcount (cvq g) = 0 \<or> shared_data g = OK
      then (l\<lparr>code := wait_round t (Cond (While_get_wait t)) @ code l\<rparr>, g) else (l, g))"
| "cv_stmt c (Wait_enter t) l g = (l, g\<lparr>waiting := (waiting g)(t := True)\<rparr>)"
| "cv_stmt c (Wait_blocked t) l g =
     (if waiting g t \<and> c = ChFail then (l\<lparr>code := Cond (Wait_blocked t) # code l\<rparr>, g) else (l, g))"
| "cv_stmt c (Set_shared e) l g = (l, g\<lparr>shared_data := e\<rparr>)"
| "cv_stmt c Signal l g = (l, g\<lparr>waiting := wake_one c (waiting g)\<rparr>)"

definition cv_exec :: "qnode_t choice \<Rightarrow> tlocal \<Rightarrow> cv_glob \<Rightarrow> qnode_t heap \<Rightarrow> (tlocal, cv_glob, qnode_t) outcome" where
  "cv_exec c l g h = (case code l of
       Cond x # k \<Rightarrow> (case cv_stmt c x (l\<lparr>code := k\<rparr>) g of (l', g') \<Rightarrow> Next l' g' h)
     | _ \<Rightarrow> (case q_exec c l (cvq g) h of
         Next l' q' h' \<Rightarrow> Next l' (g\<lparr>cvq := q'\<rparr>) h' | Exit \<Rightarrow> Exit | Fault f \<Rightarrow> Fault f))"

definition cv_prog :: "(thread, tlocal, cv_glob, qnode_t, thread pthread_mutex) prog" where
  "cv_prog = \<lparr>kind = q_kind, pop = q_pop, exec = cv_exec, acq = pthread_mutex_lock, rel = pthread_mutex_unlock\<rparr>"

definition condvar_program :: qprogram where
  "condvar_program = \<lparr>p_add = condvar_queue_add, p_get = condvar_queue_get, p_print = condvar_queue_print_stats,
     p_writer = condvar_writer, p_reader = condvar_reader, p_monitor = condvar_qmonitor\<rparr>"

definition condvar_queue_init :: "bool \<Rightarrow> c_int \<Rightarrow> c_int \<Rightarrow> queue_t option" where
  "condvar_queue_init malloc_ok err max_count =
     (if \<not> malloc_ok then None
      else let q = \<lparr>qfirst = None, qlast = None, qcount = 0, qmax = max_count,
                    add_attempts = 0, get_attempts = 0, add_count = 0, get_count = 0\<rparr>
           in if err \<noteq> 0 then None else Some q)"

text \<open>\<open>main\<close>; \<open>None\<close> is a failure of the queue's creation or of a thread's.\<close>

definition condvar_main :: "bool \<Rightarrow> c_int \<Rightarrow> c_int \<Rightarrow> c_int \<Rightarrow>
    (thread, tlocal, cv_glob, qnode_t, thread pthread_mutex) sys option" where
  "condvar_main malloc_ok err_m err_w err_r = (case condvar_queue_init malloc_ok err_m 1000 of None \<Rightarrow> None
     | Some q \<Rightarrow> if err_w \<noteq> 0 then None else if err_r \<noteq> 0 then None
         else Some \<lparr>locals = start_thread condvar_program,
           glob = \<lparr>cvq = q, shared_data = OK, waiting = (\<lambda>t. False)\<rparr>,
           cells = Map.empty, lk = None, st = Running\<rparr>)"

lemmas condvar_defs = condvar_program_def condvar_queue_add_def condvar_queue_get_def
  condvar_queue_print_stats_def condvar_writer_def condvar_reader_def condvar_qmonitor_def

section \<open>Frame\<close>

lemma cv_exec_simps [simp]:
  "code l = Cond x # k \<Longrightarrow> cv_exec c l g h = (case cv_stmt c x (l\<lparr>code := k\<rparr>) g of (l', g') \<Rightarrow> Next l' g' h)"
  "code l = [] \<Longrightarrow> cv_exec c l g h = Next (l\<lparr>code := body l\<rparr>) g h"
  by (simp_all add: cv_exec_def)

lemma cv_exec_plain:
  "code l = s # k \<Longrightarrow> (\<forall>x. s \<noteq> Cond x) \<Longrightarrow> cv_exec c l g h =
    (case exec_stmt c s (l\<lparr>code := k\<rparr>) (cvq g) h of
         Next l' q' h' \<Rightarrow> Next l' (g\<lparr>cvq := q'\<rparr>) h' | Exit \<Rightarrow> Exit | Fault f \<Rightarrow> Fault f)"
  by (cases s) (simp_all add: cv_exec_def)

lemma cv_exec_other:
  "\<nexists>x k. code l = Cond x # k \<Longrightarrow> cv_exec c l g h = (case q_exec c l (cvq g) h of
      Next l' q' h' \<Rightarrow> Next l' (g\<lparr>cvq := q'\<rparr>) h' | Exit \<Rightarrow> Exit | Fault f \<Rightarrow> Fault f)"
  unfolding cv_exec_def by (auto split: list.splits stmt.splits)

lemma cv_exec_frame:
  assumes "cv_exec c l g h1 = Next l' g' h1'" and "allowed c (h1 ++ h2)" and "disj h1 h2"
  shows "cv_exec c l g (h1 ++ h2) = Next l' g' (h1' ++ h2) \<and> disj h1' h2"
proof (cases "\<exists>x k. code l = Cond x # k")
  case True
  then obtain x k where "code l = Cond x # k" by blast
  with assms show ?thesis by (cases "cv_stmt c x (l\<lparr>code := k\<rparr>) g") simp
next
  case False
  note e = cv_exec_other [OF False]
  with assms(1) obtain q' where q': "q_exec c l (cvq g) h1 = Next l' q' h1'" "g' = g\<lparr>cvq := q'\<rparr>"
    by (auto split: outcome.splits)
  from q_exec_frame [OF q'(1) assms(2,3)] q'(2) e show ?thesis by simp
qed

lemma cv_exec_frame_exit:
  assumes "cv_exec c l g h1 = Exit"
  shows "cv_exec c l g (h1 ++ h2) = Exit"
proof (cases "\<exists>x k. code l = Cond x # k")
  case True
  then obtain x k where "code l = Cond x # k" by blast
  with assms show ?thesis by (cases "cv_stmt c x (l\<lparr>code := k\<rparr>) g") simp
next
  case False
  note e = cv_exec_other [OF False]
  with assms have "q_exec c l (cvq g) h1 = Exit" by (auto split: outcome.splits)
  from q_exec_frame_exit [OF this] e show ?thesis by simp
qed

section \<open>Invariants\<close>

text \<open>
  What the mutex protects. The flag says whether the queue is empty, and a thread that waits has
  a reason to: the writer only while there is a value, the reader only while there is none.
\<close>

definition cv_flags :: "cv_glob \<Rightarrow> (addr \<times> c_int) list \<Rightarrow> bool" where
  "cv_flags g xs \<longleftrightarrow> length xs \<le> 1 \<and> (shared_data g = OK \<longleftrightarrow> xs = []) \<and> 0 < unat (qmax (cvq g)) \<and>
     (waiting g Writer \<longrightarrow> shared_data g = NOK) \<and> (waiting g Reader \<longrightarrow> shared_data g = OK)"

definition cv_holds :: "cv_glob \<Rightarrow> qnode_t heap \<Rightarrow> (addr \<times> c_int) list \<Rightarrow> bool" where
  "cv_holds g h xs \<longleftrightarrow> queue_ok (cvq g) h xs \<and> pc_holds (cvq g) xs \<and> cv_flags g xs"

definition cv_res :: "cv_glob \<Rightarrow> qnode_t heap \<Rightarrow> bool" where
  "cv_res g h \<longleftrightarrow> (\<exists>xs. cv_holds g h xs)"

definition cv_own :: "thread \<Rightarrow> cv_glob \<Rightarrow> c_long" where
  "cv_own t g = pc_own t (cvq g)"

definition cv_head :: "tlocal \<Rightarrow> bool" where
  "cv_head l \<longleftrightarrow> code l = [] \<or> (\<exists>t k. code l = Cond (Wait_blocked t) # k)"

definition cv_good :: "thread \<Rightarrow> bool \<Rightarrow> tlocal \<Rightarrow> bool" where
  "cv_good t b l \<longleftrightarrow> errors l = [] \<and> inside l = b \<and>
     (b \<longrightarrow> t \<noteq> Monitor \<and> (\<forall>u k. code l \<noteq> Cond (Wait_blocked u) # k))"

text \<open>A thread at the head of its loop, or blocked on the condition variable.\<close>

definition cv_loop :: "thread \<Rightarrow> tlocal \<Rightarrow> c_long \<Rightarrow> qnode_t heap \<Rightarrow> bool" where
  "cv_loop t l n h \<longleftrightarrow> h = Map.empty \<and> (case t of
       Writer \<Rightarrow> body l = condvar_writer \<and> fn_add l = condvar_queue_add \<and> v_i l = ucast n \<and>
         (code l = [] \<or> code l = Cond (Wait_blocked Writer) # condvar_queue_add \<and>
            ret_to l = [If_not_ok_continue, Inc_i] \<and> v_arg l = v_i l)
     | Reader \<Rightarrow> body l = condvar_reader \<and> fn_get l = condvar_queue_get \<and> v_expected l = ucast n \<and>
         (code l = [] \<or> code l = Cond (Wait_blocked Reader) # condvar_queue_get \<and> ret_to l = reader_rest)
     | Monitor \<Rightarrow> body l = condvar_qmonitor \<and> fn_print l = condvar_queue_print_stats \<and> code l = [])"

abbreviation cv_out :: "thread \<Rightarrow> tlocal \<Rightarrow> c_long \<Rightarrow> qnode_t heap \<Rightarrow> bool" where
  "cv_out \<equiv> safe_out cv_prog cv_res cv_own cv_head cv_loop cv_good"

abbreviation cv_in :: "thread \<Rightarrow> tlocal \<Rightarrow> cv_glob \<Rightarrow> qnode_t heap \<Rightarrow> bool" where
  "cv_in \<equiv> safe_in cv_prog cv_res cv_own cv_head cv_loop cv_good"

section \<open>Executing a thread symbolically\<close>

lemma cv_prog_simps [simp]:
  "kind cv_prog = q_kind" "pop cv_prog = q_pop" "exec cv_prog = cv_exec"
  "acq cv_prog = pthread_mutex_lock" "rel cv_prog = pthread_mutex_unlock"
  by (simp_all add: cv_prog_def)

fun cv_runs_out :: "nat \<Rightarrow> tlocal \<Rightarrow> qnode_t heap \<Rightarrow> (tlocal \<Rightarrow> qnode_t heap \<Rightarrow> bool) \<Rightarrow> bool" where
  "cv_runs_out 0 l h Q \<longleftrightarrow> Q l h"
| "cv_runs_out (Suc m) l h Q \<longleftrightarrow> errors l = [] \<and> \<not> inside l \<and> code l \<noteq> [] \<and>
     hd (code l) \<notin> {Malloc_new, Lock, Unlock} \<and>
     (\<forall>c g. \<exists>l' h'. cv_exec c l g h = Next l' g h' \<and> cv_runs_out m l' h' Q)"

fun cv_runs_in :: "thread \<Rightarrow> nat \<Rightarrow> tlocal \<Rightarrow> cv_glob \<Rightarrow> qnode_t heap \<Rightarrow>
    (tlocal \<Rightarrow> cv_glob \<Rightarrow> qnode_t heap \<Rightarrow> bool) \<Rightarrow> bool" where
  "cv_runs_in t 0 l g h Q \<longleftrightarrow> Q l g h"
| "cv_runs_in t (Suc m) l g h Q \<longleftrightarrow> errors l = [] \<and> inside l \<and> t \<noteq> Monitor \<and> code l \<noteq> [] \<and>
     hd (code l) \<notin> {Malloc_new, Lock, Unlock} \<and> (\<forall>u. hd (code l) \<noteq> Cond (Wait_blocked u)) \<and>
     (\<forall>c. \<exists>l' g' h'. cv_exec c l g h = Next l' g' h' \<and>
        (\<forall>u. u \<noteq> t \<longrightarrow> cv_own u g' = cv_own u g) \<and> cv_runs_in t m l' g' h' Q)"

lemmas cv_runs_numeral [simp] =
  cv_runs_out.simps(2) [of "pred_numeral m" for m, folded numeral_eq_Suc]
  cv_runs_in.simps(2) [of _ "pred_numeral m" for m, folded numeral_eq_Suc]

lemma cv_out_runs: "cv_runs_out m l h (\<lambda>l' h'. cv_out t l' n h') \<Longrightarrow> cv_out t l n h"
proof (induction m arbitrary: l h)
  case (Suc m)
  show ?case
  proof (rule out_act)
    show "cv_good t False l" using Suc.prems by (simp add: cv_good_def)
    show "kind cv_prog l = KAct" using Suc.prems by (cases "code l") auto
    show "exec cv_prog c l g h = Exit \<or> (\<exists>l' h'. exec cv_prog c l g h = Next l' g h' \<and> cv_out t l' n h')"
      for c g using Suc by fastforce
  qed
qed simp

lemma cv_in_runs: "cv_runs_in t m l g h (cv_in t) \<Longrightarrow> cv_in t l g h"
proof (induction m arbitrary: l g h)
  case (Suc m)
  show ?case
  proof (rule in_act)
    show "cv_good t True l" using Suc.prems by (auto simp: cv_good_def)
    show "kind cv_prog l = KAct" using Suc.prems by (cases "code l") auto
    show "exec cv_prog c l g h = Exit \<or> (\<exists>l' g' h'. exec cv_prog c l g h = Next l' g' h' \<and>
        (\<forall>u. u \<noteq> t \<longrightarrow> cv_own u g' = cv_own u g) \<and> cv_in t l' g' h')"
      for c
    proof -
      from Suc.prems obtain l' g' h' where "cv_exec c l g h = Next l' g' h'"
        "\<forall>u. u \<noteq> t \<longrightarrow> cv_own u g' = cv_own u g" "cv_runs_in t m l' g' h' (cv_in t)"
        by (elim cv_runs_in.simps(2) [THEN iffD1, elim_format]) blast
      with Suc.IH show ?thesis by auto
    qed
  qed
qed simp

lemma cv_in_malloc:
  assumes "errors l = []" and "inside l" and "t \<noteq> Monitor" and "code l \<noteq> []" and "hd (code l) = Malloc_new"
    and "\<And>b junk. b \<notin> dom h \<Longrightarrow> cv_in t (l\<lparr>code := tl (code l), p_new := Some b\<rparr>) g (h(b \<mapsto> junk))"
  shows "cv_in t l g h"
proof (rule in_act)
  obtain k where k: "code l = Malloc_new # k" using assms(4,5) by (cases "code l") auto
  show "cv_good t True l" using assms(1-3) k by (simp add: cv_good_def)
  show "kind cv_prog l = KAct" using k by simp
  show "exec cv_prog c l g h = Exit \<or> (\<exists>l' g' h'. exec cv_prog c l g h = Next l' g' h' \<and>
        (\<forall>u. u \<noteq> t \<longrightarrow> cv_own u g' = cv_own u g) \<and> cv_in t l' g' h')" if "allowed c h" for c
    using that assms(6) k by (cases c) (simp_all add: cv_exec_plain)
qed

lemma cv_out_take:
  assumes "errors l = []" and "\<not> inside l" and "code l \<noteq> []" and "hd (code l) = Lock"
    and "\<And>g hR xs. cv_own t g = n \<Longrightarrow> cv_holds g hR xs \<Longrightarrow> disj h hR \<Longrightarrow>
      cv_in t (l\<lparr>code := tl (code l)\<rparr>) g (h ++ hR)"
  shows "cv_out t l n h"
proof -
  obtain k where c: "code l = Lock # k" using assms(3,4) by (cases "code l") auto
  show ?thesis by (rule out_lock) (use assms c in \<open>auto simp: cv_good_def cv_res_def\<close>)
qed

lemma cv_in_release:
  assumes "errors l = []" and "t \<noteq> Monitor" and "code l \<noteq> []" and "hd (code l) = Unlock" and "cv_holds g hR xs"
    and "disj h1 hR" and "h = h1 ++ hR" and "cv_out t (l\<lparr>code := tl (code l)\<rparr>) (cv_own t g) h1"
  shows "cv_in t l g h"
proof -
  obtain k where c: "code l = Unlock # k" using assms(3,4) by (cases "code l") auto
  show ?thesis by (rule in_unlock [where ?h1.0 = h1 and hR = hR])
    (use assms c in \<open>auto simp: cv_good_def cv_res_def\<close>)
qed

declare cv_own_def [simp]

lemma wake_one_other [simp]:
  "\<not> w Reader \<Longrightarrow> wake_one c w = w(Writer := False)" "\<not> w Writer \<Longrightarrow> wake_one c w = w(Reader := False)"
  by (auto simp: wake_one_def fun_eq_iff)

section \<open>The producer\<close>

lemma cv_writer_return:
  assumes "errors l = []" and "code l = [Return 1]" and "ret_to l = [If_not_ok_continue, Inc_i]"
    and "body l = condvar_writer" and "fn_add l = condvar_queue_add" and "v_i l = ucast m"
  shows "cv_out Writer l (m + 1) Map.empty"
  by (rule cv_out_runs [where m = 3], simp add: assms cv_exec_plain, rule out_head)
    (simp_all add: assms cv_loop_def cv_good_def cv_head_def ucast_add_c_int)

lemma cv_writer_wait:
  assumes l: "errors l = []" "code l = tl condvar_queue_add" "ret_to l = [If_not_ok_continue, Inc_i]"
    "body l = condvar_writer" "fn_add l = condvar_queue_add" "v_i l = ucast (add_count (cvq g))" "v_arg l = v_i l"
    and ok: "cv_holds g h xs" and w: "shared_data g = NOK"
  shows "cv_in Writer l g h"
  apply (rule cv_in_runs [where m = 2], simp add: l condvar_queue_add_def w wait_round_def)
  apply (rule cv_in_release [where hR = h and xs = xs and ?h1.0 = Map.empty]; (simp add: l)?)
   apply (use ok w in \<open>auto simp: cv_holds_def cv_flags_def\<close>)[1]
  apply (rule out_head; simp add: cv_good_def cv_head_def cv_loop_def l condvar_queue_add_def)
  done

lemma cv_writer_add:
  assumes l: "errors l = []" "code l = tl condvar_queue_add" "ret_to l = [If_not_ok_continue, Inc_i]"
    "body l = condvar_writer" "fn_add l = condvar_queue_add" "v_i l = ucast (add_count (cvq g))" "v_arg l = v_i l"
    and ok: "cv_holds g h xs" and w: "shared_data g \<noteq> NOK"
  shows "cv_in Writer l g h"
proof -
  from w have w': "shared_data g = OK" by (cases "shared_data g") auto
  with ok have xs: "xs = []" and q: "queue_ok (cvq g) h []" and p: "pc_holds (cvq g) []"
    and mx: "unat (qmax (cvq g)) \<noteq> 0" and ww: "\<not> waiting g Writer"
    by (auto simp: cv_holds_def cv_flags_def)
  from q have h: "h = Map.empty" by (simp add: queue_ok_def)
  have f: "qcount (cvq g) \<noteq> qmax (cvq g)" using queue_ok_full [OF q] mx by simp
  show ?thesis
    apply (rule cv_in_runs [where m = 1], simp add: l condvar_queue_add_def w' f)
    apply (rule cv_in_malloc; simp add: l h)
    subgoal for b junk
      apply (rule cv_in_runs [where m = 11], simp add: l cv_exec_plain ww queue_ok_first [OF q])
      apply (rule cv_in_release [where xs = "[(b, v_i l)]" and ?h1.0 = Map.empty]; (simp add: l)?)
       apply (simp add: cv_holds_def cv_flags_def)
       apply (use q p mx in \<open>auto simp: h queue_ok_def pc_holds_def ucast_add_c_int\<close>)[1]
      apply (rule cv_writer_return; simp add: l)
      done
    done
qed

lemma cv_writer_inside:
  assumes "errors l = []" "code l = tl condvar_queue_add" "ret_to l = [If_not_ok_continue, Inc_i]"
    "body l = condvar_writer" "fn_add l = condvar_queue_add" "v_i l = ucast (add_count (cvq g))" "v_arg l = v_i l"
    and "cv_holds g h xs"
  shows "cv_in Writer l g h"
  using cv_writer_wait [OF assms] cv_writer_add [OF assms] by blast

lemma cv_writer_lock:
  assumes l: "errors l = []" "code l = condvar_queue_add" "ret_to l = [If_not_ok_continue, Inc_i]"
    "body l = condvar_writer" "fn_add l = condvar_queue_add" "v_i l = ucast n" "v_arg l = v_i l"
  shows "cv_out Writer l n Map.empty"
  by (rule cv_out_take) (use l in \<open>auto simp: condvar_queue_add_def intro!: cv_writer_inside [simplified condvar_queue_add_def]\<close>)

section \<open>The consumer\<close>

lemma cv_reader_return:
  assumes "errors l = []" and "code l = [Return 1]" and "ret_to l = reader_rest"
    and "body l = condvar_reader" and "fn_get l = condvar_queue_get" and "v_expected l = ucast m"
    and "v_val l = ucast m"
  shows "cv_out Reader l (m + 1) Map.empty"
  by (rule cv_out_runs [where m = 4], simp add: assms cv_exec_plain, rule out_head)
    (simp_all add: assms cv_loop_def cv_good_def cv_head_def ucast_add_c_int)

lemma cv_reader_wait:
  assumes l: "errors l = []" "code l = tl condvar_queue_get" "ret_to l = reader_rest"
    "body l = condvar_reader" "fn_get l = condvar_queue_get" "v_expected l = ucast (get_count (cvq g))"
    and ok: "cv_holds g h xs" and w: "shared_data g = OK"
  shows "cv_in Reader l g h"
  apply (rule cv_in_runs [where m = 2], simp add: l condvar_queue_get_def w wait_round_def)
  apply (rule cv_in_release [where hR = h and xs = xs and ?h1.0 = Map.empty]; (simp add: l)?)
   apply (use ok w in \<open>auto simp: cv_holds_def cv_flags_def\<close>)[1]
  apply (rule out_head; simp add: cv_good_def cv_head_def cv_loop_def l condvar_queue_get_def)
  done

lemma cv_reader_get:
  assumes l: "errors l = []" "code l = tl condvar_queue_get" "ret_to l = reader_rest"
    "body l = condvar_reader" "fn_get l = condvar_queue_get" "v_expected l = ucast (get_count (cvq g))"
    and ok: "cv_holds g h xs" and w: "shared_data g \<noteq> OK"
  shows "cv_in Reader l g h"
proof -
  from w have w': "shared_data g = NOK" by (cases "shared_data g") auto
  with ok have xs: "xs \<noteq> []" "length xs \<le> 1" and q: "queue_ok (cvq g) h xs" and p: "pc_holds (cvq g) xs"
    and mx: "0 < unat (qmax (cvq g))" and ww: "\<not> waiting g Reader"
    by (auto simp: cv_holds_def cv_flags_def)
  from xs obtain b v where b: "xs = [(b, v)]" by (cases xs) auto
  from queue_ok_unlink [OF q [unfolded b]] obtain n where
    n: "qfirst (cvq g) = Some b" "h b = Some \<lparr>nval = v, nnext = n\<rparr>"
    "\<And>q'. qfirst q' = n \<Longrightarrow> qlast q' = qlast (cvq g) \<Longrightarrow> qcount q' = qcount (cvq g) - 1 \<Longrightarrow>
       qmax q' = qmax (cvq g) \<Longrightarrow> queue_ok q' (h(b := None)) []" by blast
  have v: "v = ucast (get_count (cvq g))" using p b by (simp add: pc_holds_def)
  have e: "h = [b \<mapsto> \<lparr>nval = v, nnext = n\<rparr>] ++ h(b := None)"
    using n(2) by (auto simp: map_add_def fun_eq_iff split: option.splits)
  have c: "qcount (cvq g) \<noteq> 0" using queue_ok_empty [OF q] b by simp
  show ?thesis
    apply (rule cv_in_runs [where m = 10], simp add: l condvar_queue_get_def w' c n cv_exec_plain ww)
    apply (rule cv_in_release [where hR = "h(b := None)" and xs = "[]" and ?h1.0 = "[b \<mapsto> \<lparr>nval = v, nnext = n\<rparr>]"];
      (rule e)?; (simp add: l)?)
     apply (use p b mx in \<open>auto simp: cv_holds_def cv_flags_def pc_holds_def intro!: n(3)\<close>)[1]
    apply (rule cv_out_runs [where m = 1], simp add: l cv_exec_plain)
    apply (rule cv_reader_return; simp add: l v)
    done
qed

lemma cv_reader_lock:
  assumes l: "errors l = []" "code l = condvar_queue_get" "ret_to l = reader_rest"
    "body l = condvar_reader" "fn_get l = condvar_queue_get" "v_expected l = ucast n"
  shows "cv_out Reader l n Map.empty"
proof (rule cv_out_take)
  fix g hR xs
  assume "cv_own Reader g = n" "cv_holds g hR xs"
  with l show "cv_in Reader (l\<lparr>code := tl (code l)\<rparr>) g (Map.empty ++ hR)"
    using cv_reader_wait [of "l\<lparr>code := tl (code l)\<rparr>" g hR xs] cv_reader_get [of "l\<lparr>code := tl (code l)\<rparr>" g hR xs]
    by simp blast
qed (use l in \<open>simp_all add: condvar_queue_get_def\<close>)

section \<open>The system\<close>

lemma cv_go_round:
  assumes "cv_good t False l" and "cv_head l" and "cv_loop t l n h"
  shows "kind cv_prog l = KAct \<and> (\<forall>c g. allowed c h \<longrightarrow> exec cv_prog c l g h = Exit \<or>
        (\<exists>l' h'. exec cv_prog c l g h = Next l' g h' \<and> cv_out t l' n h'))"
proof (cases "code l")
  case Nil
  have "cv_out t (l\<lparr>code := body l\<rparr>) n h"
  proof (cases t)
    case Writer
    with assms show ?thesis
      by (intro cv_out_runs [where m = 1])
        (simp add: cv_loop_def cv_good_def condvar_writer_def cv_exec_plain, rule cv_writer_lock, simp_all add: condvar_writer_def)
  next
    case Reader
    with assms show ?thesis
      by (intro cv_out_runs [where m = 2])
        (simp add: cv_loop_def cv_good_def condvar_reader_def cv_exec_plain, rule cv_reader_lock, simp_all add: condvar_reader_def)
  next
    case Monitor
    with assms show ?thesis
      by (intro cv_out_runs [where m = 3])
        (simp add: cv_loop_def cv_good_def condvar_qmonitor_def condvar_queue_print_stats_def cv_exec_plain,
         intro allI out_head, simp_all add: cv_good_def cv_head_def cv_loop_def condvar_qmonitor_def condvar_queue_print_stats_def)
  qed
  with Nil show ?thesis by simp
next
  case (Cons s k)
  with assms have t: "t = Writer \<or> t = Reader" and s: "s = Cond (Wait_blocked t)"
    by (cases t; auto simp: cv_loop_def)+
  have e: "l\<lparr>code := Cond (Wait_blocked t) # k\<rparr> = l" using Cons s by simp
  have stay: "cv_out t (l\<lparr>code := Cond (Wait_blocked t) # k\<rparr>) n h"
    unfolding e using assms by (rule out_head)
  have "cv_out t (l\<lparr>code := k\<rparr>) n h"
    using t
  proof
    assume "t = Writer"
    with assms Cons show ?thesis by (auto simp: cv_loop_def cv_good_def intro!: cv_writer_lock)
  next
    assume "t = Reader"
    with assms Cons show ?thesis by (auto simp: cv_loop_def cv_good_def intro!: cv_reader_lock)
  qed
  with stay show ?thesis using Cons s by simp
qed

interpretation cv: lock_program pthread_mutex_lock pthread_mutex_unlock "\<lambda>m. m \<noteq> None" "\<lambda>m. True"
    cv_prog cv_res cv_own cv_head cv_loop cv_good
proof (rule lock_program.intro [OF mutex.lock_iface_axioms], unfold_locales)
  show "acq cv_prog = pthread_mutex_lock" "rel cv_prog = pthread_mutex_unlock" by simp_all
qed (simp_all add: cv_exec_frame cv_exec_frame_exit cv_go_round [simplified])

text \<open>A thread is blocked while it waits on the condition variable and nobody has signalled it.\<close>

definition cv_blocked :: "(thread, tlocal, cv_glob, qnode_t, thread pthread_mutex) sys \<Rightarrow> thread \<Rightarrow> bool" where
  "cv_blocked s t \<longleftrightarrow> waiting (glob s) t \<and> (\<exists>k. code (locals s t) = Cond (Wait_blocked t) # k)"

lemma condvar_main_starts:
  "condvar_main m e err_w err_r = Some s0 \<Longrightarrow> s0 = \<lparr>locals = start_thread condvar_program,
     glob = \<lparr>cvq = empty_queue 1000, shared_data = OK, waiting = (\<lambda>t. False)\<rparr>,
     cells = Map.empty, lk = None, st = Running\<rparr>"
  by (auto simp: condvar_main_def condvar_queue_init_def empty_queue_def split: if_splits option.splits)

lemma cv_start_inv:
  assumes "condvar_main m e err_w err_r = Some s0"
  shows "cv.lp_inv s0"
proof (rule cv.inv_initially)
  note s0 = condvar_main_starts [OF assms]
  show "st s0 = Running" "\<not> lk s0 \<noteq> None" "cells s0 = Map.empty" by (simp_all add: s0)
  have "queue_ok (empty_queue 1000) Map.empty []" by (rule empty_queue_ok) simp
  then have "cv_holds (glob s0) Map.empty []"
    by (simp add: s0 cv_holds_def cv_flags_def pc_holds_def) (simp add: empty_queue_def)
  then show "cv_res (glob s0) Map.empty" unfolding cv_res_def by blast
  show "cv_out t (locals s0 t) (cv_own t (glob s0)) Map.empty" for t
    by (rule out_head; cases t)
      (simp_all add: s0 cv_good_def cv_head_def cv_loop_def condvar_program_def fresh_local_def empty_queue_def)
qed simp

lemma cv_somebody_runs:
  assumes inv: "cv.lp_inv s" and r: "st s = Running"
  shows "\<exists>t\<in>{Writer, Reader}. \<not> cv_blocked s t \<and> (\<exists>s'. do_step cv_prog (t, ChFail) s = Some s')"
proof (cases "lk s = None")
  case True
  with cv.inv_resource [OF inv] obtain h xs where "cv_holds (glob s) h xs" by (auto simp: cv_res_def)
  then have "\<not> cv_blocked s Writer \<or> \<not> cv_blocked s Reader"
    by (auto simp: cv_holds_def cv_flags_def cv_blocked_def)
  with cv.inv_free_step [OF inv _ r] True show ?thesis by blast
next
  case False
  obtain t where t: "cv_good t True (locals s t)" "\<exists>s'. do_step cv_prog (t, ChFail) s = Some s'"
    using cv.inv_holder [OF inv False] r by metis
  then have "\<not> cv_blocked s t" "t \<noteq> Monitor" by (auto simp: cv_good_def cv_blocked_def)
  with t(2) show ?thesis by (cases t) auto
qed

text \<open>
  C3. The producer and the consumer over a condition variable, \<open>queue-thread-condvar.c\<close>. In every
  interleaving: no fault, no error message of the reader; whenever the mutex is free the list is
  well-formed, holds at most one value (the threads alternate, whatever the capacity), and the
  flag says whether it is empty; and no wake-up is lost: at every moment the writer or the reader is not
  blocked on the condition variable and can take its next step.
\<close>

theorem condvar_threads_correct:
  assumes "condvar_main m e err_w err_r = Some s0" and "lp_reach cv_prog s0 s"
  shows "(\<forall>f. st s \<noteq> Crashed f) \<and> errors (locals s Reader) = [] \<and>
    (lk s = None \<longrightarrow> (\<exists>h xs. h \<subseteq>\<^sub>m cells s \<and> queue_ok (cvq (glob s)) h xs \<and> pc_holds (cvq (glob s)) xs \<and>
       length xs \<le> 1 \<and> (shared_data (glob s) = OK \<longleftrightarrow> xs = []))) \<and>
    (st s = Running \<longrightarrow> (\<exists>t\<in>{Writer, Reader}. \<not> cv_blocked s t \<and> (\<exists>s'. do_step cv_prog (t, ChFail) s = Some s')))"
proof -
  have inv: "cv.lp_inv s" using assms(2) cv_start_inv [OF assms(1)] by (rule cv.lp_reach_inv)
  have "errors (locals s Reader) = []" using cv.inv_good [OF inv, of Reader] by (auto simp: cv_good_def)
  moreover have "\<exists>h xs. h \<subseteq>\<^sub>m cells s \<and> queue_ok (cvq (glob s)) h xs \<and> pc_holds (cvq (glob s)) xs \<and>
      length xs \<le> 1 \<and> (shared_data (glob s) = OK \<longleftrightarrow> xs = [])" if "lk s = None"
    using cv.inv_resource [OF inv] that unfolding cv_res_def cv_holds_def cv_flags_def by blast
  ultimately show ?thesis using cv.inv_not_crashed [OF inv] cv_somebody_runs [OF inv] by blast
qed

text \<open>The schedule of the witness: the reader comes first and waits, then the writer adds a value.\<close>

definition reader_waits :: "(thread \<times> qnode_t choice) list" where
  "reader_waits = replicate 7 (Reader, ChFail) @ replicate 4 (Writer, ChFail) @
     [(Writer, ChAlloc 1 \<lparr>nval = 0, nnext = None\<rparr>)] @ replicate 12 (Writer, ChFail)"

theorem condvar_threads_correct_witness:
  "\<exists>s0 s. condvar_main True 0 0 0 = Some s0 \<and> lp_reach cv_prog s0 s \<and>
    (\<exists>k. code (locals s Reader) = Cond (Wait_blocked Reader) # k) \<and> shared_data (glob s) = NOK \<and>
    errors (locals s Reader) = []"
proof -
  let ?s0 = "\<lparr>locals = start_thread condvar_program,
     glob = \<lparr>cvq = empty_queue 1000, shared_data = OK, waiting = (\<lambda>t. False)\<rparr>,
     cells = Map.empty, lk = None, st = Running\<rparr>"
  have m: "condvar_main True 0 0 0 = Some ?s0"
    by (simp add: condvar_main_def condvar_queue_init_def empty_queue_def)
  have "\<exists>s. do_sched cv_prog reader_waits ?s0 = Some s \<and> shared_data (glob s) = NOK \<and>
      (\<exists>k. code (locals s Reader) = Cond (Wait_blocked Reader) # k)"
    by (simp add: reader_waits_def thread_simps condvar_defs replicate_num cv_exec_plain wait_round_def)
  then obtain s where s: "lp_reach cv_prog ?s0 s" "shared_data (glob s) = NOK"
    "\<exists>k. code (locals s Reader) = Cond (Wait_blocked Reader) # k"
    using lp_reach_iff_sched by metis
  with condvar_threads_correct [OF m s(1)] m show ?thesis by blast
qed

end
