(* ===== verification/Interleaving.thy ===== *)
theory Interleaving
  imports Prelude
begin

text \<open>
  Threads that interleave statement by statement. A program is a function \<open>step\<close> that performs the next statement of a given
  thread. The theory has its reachable states, the execution of a given schedule, and the two contracts the programs fulfil: an
  invariant that every statement keeps (\<open>kept\<close>), and in addition a rank that some thread can always lower (\<open>finishing\<close>).
\<close>

text \<open>\<open>step t s = None\<close>: the thread has ended or is blocked.\<close>

inductive steps :: "('t \<Rightarrow> 's \<Rightarrow> 's option) \<Rightarrow> 's \<Rightarrow> 's \<Rightarrow> bool" for step s0 where
  steps_refl: "steps step s0 s0"
| steps_step: "steps step s0 s \<Longrightarrow> step t s = Some s' \<Longrightarrow> steps step s0 s'"

lemma steps_trans: "steps step s1 s2 \<Longrightarrow> steps step s0 s1 \<Longrightarrow> steps step s0 s2"
  by (induction rule: steps.induct) (auto intro: steps.intros)

lemma steps_first: "step t s = Some s1 \<Longrightarrow> steps step s1 s' \<Longrightarrow> steps step s s'"
  using steps_trans [of step s1 s' s] steps_step [of step s s t s1, OF steps_refl] by blast

fun run :: "('t \<Rightarrow> 's \<Rightarrow> 's option) \<Rightarrow> 't list \<Rightarrow> 's \<Rightarrow> 's option" where
  "run step [] s = Some s"
| "run step (t # ts) s = (case step t s of None \<Rightarrow> None | Some s' \<Rightarrow> run step ts s')"

lemma run_steps: "run step ts s = Some s' \<Longrightarrow> steps step s s'"
  by (induction ts arbitrary: s) (auto intro: steps_refl steps_first split: option.splits)

lemma run_append: "run step (ts @ us) s = (case run step ts s of None \<Rightarrow> None | Some s' \<Rightarrow> run step us s')"
  by (induction ts arbitrary: s) (auto split: option.splits)

locale kept =
  fixes step :: "'t \<Rightarrow> 's \<Rightarrow> 's option"
    and inv :: "'s \<Rightarrow> bool"
  assumes inv_step: "inv s \<Longrightarrow> step t s = Some s' \<Longrightarrow> inv s'"
begin

lemma steps_inv: "steps step s0 s \<Longrightarrow> inv s0 \<Longrightarrow> inv s"
  by (induction rule: steps.induct) (auto intro: inv_step)

end

text \<open>From every state short of the end some thread can take a step that brings the end nearer.\<close>

locale finishing = kept +
  fixes final :: "'b \<Rightarrow> bool"
    and rank :: "'b \<Rightarrow> nat"
  assumes nearer: "inv s \<Longrightarrow> \<not> final s \<Longrightarrow> \<exists>t s'. step t s = Some s' \<and> rank s' < rank s"
begin

theorem can_finish: "inv s \<Longrightarrow> \<exists>s'. steps step s s' \<and> final s' \<and> inv s'"
proof (induction "rank s" arbitrary: s rule: less_induct)
  case less
  show ?case
  proof (cases "final s")
    case True
    with less.prems show ?thesis by (auto intro: steps_refl)
  next
    case False
    with nearer [OF less.prems] obtain t s1 where s1: "step t s = Some s1" "rank s1 < rank s" by blast
    from less.hyps [OF s1(2)] inv_step [OF less.prems s1(1)] obtain s' where
      s': "steps step s1 s'" "final s'" "inv s'" by blast
    with steps_first [of step t s s1 s', OF s1(1)] show ?thesis by blast
  qed
qed

end

end
