(* ===== verification/Own_Locks.thy ===== *)
theory Own_Locks
  imports Interleaving
begin

text \<open>
  The hand-made locks of \<open>semestr2/Task2/Task2_4\<close>: \<open>spinlock.c\<close>, a loop around an atomic
  compare-and-exchange, and \<open>mutex.c\<close>, which sleeps in the kernel with \<open>futex\<close>. In both programs two
  threads increment the plain variable \<open>counter\<close> \<open>COUNT_ITERATION\<close> times each under the lock. Every
  statement of a thread is one step, the increment is a read and a write, and the threads interleave
  freely. Shown: mutual exclusion, that no increment is lost, and that the program can always run to its end
  (with the \<open>futex\<close>, that no wake-up is lost).
\<close>

section \<open>Interleaving of two threads\<close>

datatype tid = T1 | T2

fun other :: "tid \<Rightarrow> tid" where
  "other T1 = T2"
| "other T2 = T1"

section \<open>Atomic operations\<close>

definition STATUS_LOCK :: c_int where "STATUS_LOCK = 0"
definition STATUS_UNLOCK :: c_int where "STATUS_UNLOCK = 1"

text \<open>\<open>atomic_compare_exchange_strong\<close>: whether it succeeded, and the new value of the object.\<close>

definition atomic_compare_exchange_strong :: "c_int \<Rightarrow> c_int \<Rightarrow> c_int \<Rightarrow> bool \<times> c_int" where
  "atomic_compare_exchange_strong obj expected desired =
     (if obj = expected then (True, desired) else (False, obj))"

section \<open>The spin lock\<close>

text \<open>Where a thread is: the test of its loop, or the statement it executes next.\<close>

datatype spin_pc = SFor | SCas | SLoad | SStore | SCas_unlock | SEnd

record spin_thread =
  s_pc :: spin_pc
  s_i :: c_int
  s_reg :: c_int

record spin_sys =
  s_lock :: c_int
  s_counter :: c_int
  s_thr :: "tid \<Rightarrow> spin_thread"

definition SPIN_ITERATIONS :: c_int where "SPIN_ITERATIONS = 100000"

text \<open>One round of the loop of \<open>spinlock_lock\<close>, and \<open>spinlock_unlock\<close>.\<close>

definition spinlock_lock :: "c_int \<Rightarrow> bool \<times> c_int" where
  "spinlock_lock lock = atomic_compare_exchange_strong lock STATUS_UNLOCK STATUS_LOCK"

definition spinlock_unlock :: "c_int \<Rightarrow> c_int" where
  "spinlock_unlock lock = snd (atomic_compare_exchange_strong lock STATUS_LOCK STATUS_UNLOCK)"

definition spinlock_init :: c_int where
  "spinlock_init = STATUS_UNLOCK"

text \<open>One statement of a thread with \<open>n\<close> iterations; \<open>None\<close> when it has returned.\<close>

definition spin_body :: "c_int \<Rightarrow> spin_thread \<Rightarrow> c_int \<Rightarrow> c_int \<Rightarrow> (spin_thread \<times> c_int \<times> c_int) option" where
  "spin_body n th lock cnt = (case s_pc th of
     SFor \<Rightarrow> Some (if s_i th <s n then th\<lparr>s_pc := SCas\<rparr> else th\<lparr>s_pc := SEnd\<rparr>, lock, cnt)
   | SCas \<Rightarrow> (case spinlock_lock lock of (ok, lock') \<Rightarrow>
       Some (if ok then th\<lparr>s_pc := SLoad\<rparr> else th, lock', cnt))
   | SLoad \<Rightarrow> Some (th\<lparr>s_pc := SStore, s_reg := cnt\<rparr>, lock, cnt)
   | SStore \<Rightarrow> Some (th\<lparr>s_pc := SCas_unlock\<rparr>, lock, s_reg th + 1)
   | SCas_unlock \<Rightarrow> Some (th\<lparr>s_pc := SFor, s_i := s_i th + 1\<rparr>, spinlock_unlock lock, cnt)
   | SEnd \<Rightarrow> None)"

text \<open>\<open>thread_1\<close> and \<open>thread_2\<close> have the same body.\<close>

definition spin_thread_1 :: "spin_thread \<Rightarrow> c_int \<Rightarrow> c_int \<Rightarrow> (spin_thread \<times> c_int \<times> c_int) option" where
  "spin_thread_1 = spin_body SPIN_ITERATIONS"

definition spin_thread_2 :: "spin_thread \<Rightarrow> c_int \<Rightarrow> c_int \<Rightarrow> (spin_thread \<times> c_int \<times> c_int) option" where
  "spin_thread_2 = spin_body SPIN_ITERATIONS"

definition spin_step :: "tid \<Rightarrow> spin_sys \<Rightarrow> spin_sys option" where
  "spin_step t s = map_option
     (\<lambda>(th, lock, cnt). s\<lparr>s_lock := lock, s_counter := cnt, s_thr := (s_thr s)(t := th)\<rparr>)
     ((case t of T1 \<Rightarrow> spin_thread_1 | T2 \<Rightarrow> spin_thread_2) (s_thr s t) (s_lock s) (s_counter s))"

text \<open>\<open>main\<close>: \<open>None\<close> when a thread cannot be created; otherwise both run and \<open>counter\<close> is printed.\<close>

definition spinlock_main :: "c_int \<Rightarrow> c_int \<Rightarrow> spin_sys option" where
  "spinlock_main err_1 err_2 = (if err_1 \<noteq> 0 then None else if err_2 \<noteq> 0 then None
     else Some \<lparr>s_lock = spinlock_init, s_counter = 0,
       s_thr = (\<lambda>t. \<lparr>s_pc = SFor, s_i = 0, s_reg = 0\<rparr>)\<rparr>)"

definition spin_final :: "spin_sys \<Rightarrow> bool" where
  "spin_final s \<longleftrightarrow> s_pc (s_thr s T1) = SEnd \<and> s_pc (s_thr s T2) = SEnd"

definition spin_in_cs :: "spin_pc \<Rightarrow> bool" where
  "spin_in_cs p \<longleftrightarrow> p \<in> {SLoad, SStore, SCas_unlock}"

subsection \<open>Its invariant\<close>

text \<open>How many increments of \<open>counter\<close> thread \<open>t\<close> has made.\<close>

definition spin_done :: "spin_thread \<Rightarrow> nat" where
  "spin_done th = unat (s_i th) + (if s_pc th = SCas_unlock then 1 else 0)"

definition spin_thread_ok :: "spin_thread \<Rightarrow> c_int \<Rightarrow> bool" where
  "spin_thread_ok th cnt \<longleftrightarrow> unat (s_i th) \<le> 100000 \<and>
     (s_pc th \<in> {SCas, SLoad, SStore, SCas_unlock} \<longrightarrow> unat (s_i th) < 100000) \<and>
     (s_pc th = SEnd \<longrightarrow> unat (s_i th) = 100000) \<and> (s_pc th = SStore \<longrightarrow> s_reg th = cnt)"

text \<open>Seen from one thread: itself, the other one, the lock and the counter.\<close>

definition spin_pair :: "spin_thread \<Rightarrow> spin_thread \<Rightarrow> c_int \<Rightarrow> c_int \<Rightarrow> bool" where
  "spin_pair th oth lock cnt \<longleftrightarrow> spin_thread_ok th cnt \<and> spin_thread_ok oth cnt \<and>
     cnt = of_nat (spin_done th + spin_done oth) \<and>
     \<not> (spin_in_cs (s_pc th) \<and> spin_in_cs (s_pc oth)) \<and>
     lock = (if spin_in_cs (s_pc th) \<or> spin_in_cs (s_pc oth) then STATUS_LOCK else STATUS_UNLOCK)"

definition spin_inv :: "spin_sys \<Rightarrow> bool" where
  "spin_inv s \<longleftrightarrow> spin_pair (s_thr s T1) (s_thr s T2) (s_lock s) (s_counter s)"

lemma spin_pair_commute: "spin_pair th oth lock cnt = spin_pair oth th lock cnt"
  by (auto simp: spin_pair_def add.commute)

lemma unat_eq_100000 [simp]: "unat (i :: c_int) = 100000 \<longleftrightarrow> i = 100000"
  by (simp add: word_unat_eq_iff)

lemma STATUS_distinct [simp]: "STATUS_LOCK \<noteq> STATUS_UNLOCK" "STATUS_UNLOCK \<noteq> STATUS_LOCK"
  by (simp_all add: STATUS_LOCK_def STATUS_UNLOCK_def)

lemmas spin_body_defs = spin_body_def spinlock_lock_def spinlock_unlock_def
  atomic_compare_exchange_strong_def SPIN_ITERATIONS_def

lemmas spin_pair_defs = spin_pair_def spin_thread_ok_def spin_in_cs_def spin_done_def

lemma spin_body_pair:
  assumes "spin_pair th oth lock cnt" and "spin_body SPIN_ITERATIONS th lock cnt = Some (th', lock', cnt')"
  shows "spin_pair th' oth lock' cnt'"
proof (cases "s_pc th")
  case SFor
  have "unat (s_i th) < 2 ^ 31" using assms(1) by (simp add: spin_pair_defs)
  then have "s_i th <s 100000 \<longleftrightarrow> unat (s_i th) < 100000" using c_int_sless_unat [of "s_i th" 100000] by simp
  with SFor assms show ?thesis by (cases "s_pc oth") (simp_all add: spin_body_defs spin_pair_defs split: if_splits, auto?)
next
  case SCas
  with assms show ?thesis by (cases "s_pc oth") (simp_all add: spin_body_defs spin_pair_defs split: if_splits, auto?)
next
  case SLoad
  with assms show ?thesis by (cases "s_pc oth") (simp_all add: spin_body_defs spin_pair_defs split: if_splits, auto?)
next
  case SStore
  with assms show ?thesis by (cases "s_pc oth") (simp_all add: spin_body_defs spin_pair_defs split: if_splits, auto?)
next
  case SCas_unlock
  have "unat (s_i th + 1) = unat (s_i th) + 1"
    using assms(1) SCas_unlock c_int_inc_unat [of "s_i th"] by (simp add: spin_pair_defs)
  with SCas_unlock assms show ?thesis by (cases "s_pc oth") (simp_all add: spin_body_defs spin_pair_defs split: if_splits, auto?)
next
  case SEnd
  with assms show ?thesis by (simp add: spin_body_defs)
qed


lemma spin_inv_step:
  assumes "spin_inv s" and "spin_step t s = Some s'"
  shows "spin_inv s'"
proof (cases t)
  case T1
  with assms spin_body_pair [of "s_thr s T1" "s_thr s T2" "s_lock s" "s_counter s"] show ?thesis
    by (auto simp: spin_inv_def spin_step_def spin_thread_1_def)
next
  case T2
  with assms spin_body_pair [of "s_thr s T2" "s_thr s T1" "s_lock s" "s_counter s"] show ?thesis
    by (auto simp: spin_inv_def spin_step_def spin_thread_2_def spin_pair_commute [of "s_thr s T1"])
qed

text \<open>A thread in its critical section, or any thread while the lock is free, gets nearer to the end.\<close>

fun spin_rank_pc :: "spin_pc \<Rightarrow> nat" where
  "spin_rank_pc SFor = 5"
| "spin_rank_pc SCas = 4"
| "spin_rank_pc SLoad = 3"
| "spin_rank_pc SStore = 2"
| "spin_rank_pc SCas_unlock = 1"
| "spin_rank_pc SEnd = 0"

definition spin_rank_thread :: "spin_thread \<Rightarrow> nat" where
  "spin_rank_thread th = (100000 - unat (s_i th)) * 10 + spin_rank_pc (s_pc th)"

definition spin_rank :: "spin_sys \<Rightarrow> nat" where
  "spin_rank s = spin_rank_thread (s_thr s T1) + spin_rank_thread (s_thr s T2)"

lemma spin_body_nearer:
  assumes "spin_pair th oth lock cnt" and "s_pc th \<noteq> SEnd" and "\<not> spin_in_cs (s_pc oth)"
  shows "\<exists>th' lock' cnt'. spin_body SPIN_ITERATIONS th lock cnt = Some (th', lock', cnt') \<and>
    spin_rank_thread th' < spin_rank_thread th"
proof -
  have "unat (s_i th) < 2 ^ 31" using assms(1) by (simp add: spin_pair_defs)
  then have l: "s_i th <s 100000 \<longleftrightarrow> unat (s_i th) < 100000" and i: "unat (s_i th + 1) = unat (s_i th) + 1"
    using c_int_sless_unat [of "s_i th" 100000] c_int_inc_unat [of "s_i th"] by simp_all
  from assms l i show ?thesis
    by (cases "s_pc th") (simp_all add: spin_body_defs spin_pair_defs spin_rank_thread_def, linarith?)
qed

lemma spin_nearer:
  assumes "spin_inv s" and "\<not> spin_final s"
  shows "\<exists>t s'. spin_step t s = Some s' \<and> spin_rank s' < spin_rank s"
proof -
  have p1: "spin_pair (s_thr s T1) (s_thr s T2) (s_lock s) (s_counter s)"
    and p2: "spin_pair (s_thr s T2) (s_thr s T1) (s_lock s) (s_counter s)"
    using assms(1) by (auto simp: spin_inv_def spin_pair_commute)
  have "s_pc (s_thr s T1) \<noteq> SEnd \<and> \<not> spin_in_cs (s_pc (s_thr s T2)) \<or>
      s_pc (s_thr s T2) \<noteq> SEnd \<and> \<not> spin_in_cs (s_pc (s_thr s T1))"
    using assms(2) p1 by (auto simp: spin_final_def spin_pair_def spin_in_cs_def)
  then show ?thesis
  proof
    assume "s_pc (s_thr s T1) \<noteq> SEnd \<and> \<not> spin_in_cs (s_pc (s_thr s T2))"
    with spin_body_nearer [OF p1] show ?thesis
      by (intro exI [of _ T1]) (auto simp: spin_step_def spin_thread_1_def spin_rank_def)
  next
    assume "s_pc (s_thr s T2) \<noteq> SEnd \<and> \<not> spin_in_cs (s_pc (s_thr s T1))"
    with spin_body_nearer [OF p2] show ?thesis
      by (intro exI [of _ T2]) (auto simp: spin_step_def spin_thread_2_def spin_rank_def)
  qed
qed

interpretation spinlock: finishing spin_step spin_inv spin_final spin_rank
  using spin_inv_step spin_nearer by unfold_locales


text \<open>
  C11. \<open>spinlock.c\<close>: in every interleaving at most one of the two threads is between \<open>spinlock_lock\<close> and
  \<open>spinlock_unlock\<close>, the value of \<open>counter\<close> when both have returned is 200000 (no increment is lost), and
  from every state the program can reach the threads can run on until both have returned.
\<close>

theorem spinlock_counts_correctly:
  assumes "spinlock_main err_1 err_2 = Some s0" and "steps spin_step s0 s"
  shows "\<not> (spin_in_cs (s_pc (s_thr s T1)) \<and> spin_in_cs (s_pc (s_thr s T2))) \<and>
    (spin_final s \<longrightarrow> s_counter s = 200000) \<and> (\<exists>s'. steps spin_step s s' \<and> spin_final s')"
proof -
  from assms(1) have "s0 = \<lparr>s_lock = STATUS_UNLOCK, s_counter = 0, s_thr = (\<lambda>t. \<lparr>s_pc = SFor, s_i = 0, s_reg = 0\<rparr>)\<rparr>"
    by (simp add: spinlock_main_def spinlock_init_def split: if_splits)
  then have "spin_inv s0" by (simp add: spin_inv_def spin_pair_defs)
  with assms(2) have inv: "spin_inv s" by (rule spinlock.steps_inv)
  then have "spin_final s \<longrightarrow> s_counter s = 200000" by (auto simp: spin_inv_def spin_pair_defs spin_final_def)
  with inv spinlock.can_finish [OF inv] show ?thesis by (auto simp: spin_inv_def spin_pair_def)
qed

theorem spinlock_counts_correctly_witness:
  "\<exists>s0 s s'. spinlock_main 0 0 = Some s0 \<and> run spin_step [T1, T1, T2, T2, T2, T1, T1] s0 = Some s \<and> s_counter s = 1 \<and>
    steps spin_step s s' \<and> spin_final s'"
proof -
  let ?s0 = "\<lparr>s_lock = STATUS_UNLOCK, s_counter = 0, s_thr = (\<lambda>t. \<lparr>s_pc = SFor, s_i = 0, s_reg = 0\<rparr>)\<rparr>"
  have m: "spinlock_main 0 0 = Some ?s0" by (simp add: spinlock_main_def spinlock_init_def)
  have "\<exists>s. run spin_step [T1, T1, T2, T2, T2, T1, T1] ?s0 = Some s \<and> s_counter s = 1"
    by (simp add: spin_step_def spin_thread_1_def spin_thread_2_def spin_body_defs word_sless_alt)
  then obtain s where s: "run spin_step [T1, T1, T2, T2, T2, T1, T1] ?s0 = Some s" "s_counter s = 1" by blast
  from spinlock_counts_correctly [OF m run_steps [OF s(1)]] s m show ?thesis by blast
qed

section \<open>The mutex on a futex\<close>

datatype mutex_pc = MFor | MCas | MWait | MSleep | MYield | MLoad | MStore | MPrintf | MCas_unlock | MWake | MEnd

record mutex_thread =
  m_pc :: mutex_pc
  m_i :: c_int
  m_reg :: c_int
  m_asleep :: bool \<comment> \<open>in the kernel's queue of the futex\<close>

record mutex_sys =
  m_lock :: c_int
  m_counter :: c_int
  m_thr :: "tid \<Rightarrow> mutex_thread"

definition MUTEX_ITERATIONS :: c_int where "MUTEX_ITERATIONS = 1000000"

definition mutex_init :: c_int where
  "mutex_init = 1"

text \<open>
  The two uses of \<open>wrapper_futex\<close>. \<open>FUTEX_WAIT\<close> puts the caller to sleep in one action with the
  test that the word still has the expected value, otherwise it returns at once (\<open>EAGAIN\<close>).
  \<open>FUTEX_WAKE\<close> wakes at most \<open>val\<close> sleepers; here the other thread is the only one there can be.
\<close>

definition futex_wait :: "c_int \<Rightarrow> c_int \<Rightarrow> mutex_thread \<Rightarrow> mutex_thread" where
  "futex_wait uaddr val th =
     (if uaddr = val then th\<lparr>m_pc := MSleep, m_asleep := True\<rparr> else th\<lparr>m_pc := MYield\<rparr>)"

definition futex_wake :: "c_int \<Rightarrow> mutex_thread \<Rightarrow> mutex_thread" where
  "futex_wake val oth = (if 0 <s val then oth\<lparr>m_asleep := False\<rparr> else oth)"

text \<open>One round of the loop of \<open>mutex_lock\<close> up to its first call of the kernel, and the exchange of \<open>mutex_unlock\<close>.\<close>

definition mutex_lock :: "c_int \<Rightarrow> mutex_thread \<Rightarrow> mutex_thread \<times> c_int" where
  "mutex_lock lock th = (case atomic_compare_exchange_strong lock STATUS_UNLOCK STATUS_LOCK of
     (ok, lock') \<Rightarrow> (if ok then th\<lparr>m_pc := MLoad\<rparr> else th\<lparr>m_pc := MWait\<rparr>, lock'))"

definition mutex_unlock :: "c_int \<Rightarrow> mutex_thread \<Rightarrow> mutex_thread \<times> c_int" where
  "mutex_unlock lock th = (case atomic_compare_exchange_strong lock STATUS_LOCK STATUS_UNLOCK of
     (ok, lock') \<Rightarrow> (if ok then th\<lparr>m_pc := MWake\<rparr> else th\<lparr>m_pc := MFor, m_i := m_i th + 1\<rparr>, lock'))"

text \<open>
  One statement of a thread: the thread, the other thread, the lock and the counter before and
  after; \<open>None\<close> when it sleeps or has returned.
\<close>

definition mutex_body :: "c_int \<Rightarrow> mutex_thread \<Rightarrow> mutex_thread \<Rightarrow> c_int \<Rightarrow> c_int \<Rightarrow>
    (mutex_thread \<times> mutex_thread \<times> c_int \<times> c_int) option" where
  "mutex_body n th oth lock cnt = (case m_pc th of
     MFor \<Rightarrow> Some (if m_i th <s n then th\<lparr>m_pc := MCas\<rparr> else th\<lparr>m_pc := MEnd\<rparr>, oth, lock, cnt)
   | MCas \<Rightarrow> (case mutex_lock lock th of (th', lock') \<Rightarrow> Some (th', oth, lock', cnt))
   | MWait \<Rightarrow> Some (futex_wait lock STATUS_LOCK th, oth, lock, cnt)
   | MSleep \<Rightarrow> if m_asleep th then None else Some (th\<lparr>m_pc := MYield\<rparr>, oth, lock, cnt)
   | MYield \<Rightarrow> Some (th\<lparr>m_pc := MCas\<rparr>, oth, lock, cnt)
   | MLoad \<Rightarrow> Some (th\<lparr>m_pc := MStore, m_reg := cnt\<rparr>, oth, lock, cnt)
   | MStore \<Rightarrow> Some (th\<lparr>m_pc := MPrintf\<rparr>, oth, lock, m_reg th + 1)
   | MPrintf \<Rightarrow> Some (th\<lparr>m_pc := MCas_unlock\<rparr>, oth, lock, cnt)
   | MCas_unlock \<Rightarrow> (case mutex_unlock lock th of (th', lock') \<Rightarrow> Some (th', oth, lock', cnt))
   | MWake \<Rightarrow> Some (th\<lparr>m_pc := MFor, m_i := m_i th + 1\<rparr>, futex_wake STATUS_UNLOCK oth, lock, cnt)
   | MEnd \<Rightarrow> None)"

definition mutex_thread_1 where
  "mutex_thread_1 = mutex_body MUTEX_ITERATIONS"

definition mutex_thread_2 where
  "mutex_thread_2 = mutex_body MUTEX_ITERATIONS"

definition mutex_step :: "tid \<Rightarrow> mutex_sys \<Rightarrow> mutex_sys option" where
  "mutex_step t s = map_option
     (\<lambda>(th, oth, lock, cnt). s\<lparr>m_lock := lock, m_counter := cnt, m_thr := (m_thr s)(t := th, other t := oth)\<rparr>)
     ((case t of T1 \<Rightarrow> mutex_thread_1 | T2 \<Rightarrow> mutex_thread_2) (m_thr s t) (m_thr s (other t)) (m_lock s) (m_counter s))"

definition futex_main :: "c_int \<Rightarrow> c_int \<Rightarrow> mutex_sys option" where
  "futex_main err_1 err_2 = (if err_1 \<noteq> 0 then None else if err_2 \<noteq> 0 then None
     else Some \<lparr>m_lock = mutex_init, m_counter = 0,
       m_thr = (\<lambda>t. \<lparr>m_pc = MFor, m_i = 0, m_reg = 0, m_asleep = False\<rparr>)\<rparr>)"

definition mutex_final :: "mutex_sys \<Rightarrow> bool" where
  "mutex_final s \<longleftrightarrow> m_pc (m_thr s T1) = MEnd \<and> m_pc (m_thr s T2) = MEnd"

definition mutex_in_cs :: "mutex_pc \<Rightarrow> bool" where
  "mutex_in_cs p \<longleftrightarrow> p \<in> {MLoad, MStore, MPrintf, MCas_unlock}"

subsection \<open>Its invariant\<close>

definition mutex_done :: "mutex_thread \<Rightarrow> nat" where
  "mutex_done th = unat (m_i th) + (if m_pc th \<in> {MPrintf, MCas_unlock, MWake} then 1 else 0)"

text \<open>
  A thread sleeps only while the other one holds the lock or has released it and is about to
  wake it.
\<close>

definition mutex_thread_ok :: "mutex_thread \<Rightarrow> mutex_thread \<Rightarrow> c_int \<Rightarrow> bool" where
  "mutex_thread_ok th oth cnt \<longleftrightarrow> unat (m_i th) \<le> 1000000 \<and>
     (m_pc th \<notin> {MFor, MEnd} \<longrightarrow> unat (m_i th) < 1000000) \<and>
     (m_pc th = MEnd \<longrightarrow> unat (m_i th) = 1000000) \<and> (m_pc th = MStore \<longrightarrow> m_reg th = cnt) \<and>
     (m_asleep th \<longrightarrow> m_pc th = MSleep \<and> (mutex_in_cs (m_pc oth) \<or> m_pc oth = MWake))"

definition mutex_pair :: "mutex_thread \<Rightarrow> mutex_thread \<Rightarrow> c_int \<Rightarrow> c_int \<Rightarrow> bool" where
  "mutex_pair th oth lock cnt \<longleftrightarrow> mutex_thread_ok th oth cnt \<and> mutex_thread_ok oth th cnt \<and>
     cnt = of_nat (mutex_done th + mutex_done oth) \<and>
     \<not> (mutex_in_cs (m_pc th) \<and> mutex_in_cs (m_pc oth)) \<and>
     lock = (if mutex_in_cs (m_pc th) \<or> mutex_in_cs (m_pc oth) then STATUS_LOCK else STATUS_UNLOCK)"

definition mutex_inv :: "mutex_sys \<Rightarrow> bool" where
  "mutex_inv s \<longleftrightarrow> mutex_pair (m_thr s T1) (m_thr s T2) (m_lock s) (m_counter s)"

lemma mutex_pair_commute: "mutex_pair th oth lock cnt = mutex_pair oth th lock cnt"
  by (auto simp: mutex_pair_def add.commute)

lemma unat_eq_1000000 [simp]: "unat (i :: c_int) = 1000000 \<longleftrightarrow> i = 1000000"
  by (simp add: word_unat_eq_iff)

lemma wake_unlock [simp]: "futex_wake STATUS_UNLOCK oth = oth\<lparr>m_asleep := False\<rparr>"
  by (simp add: futex_wake_def STATUS_UNLOCK_def word_sless_alt)

lemmas mutex_body_defs = mutex_body_def mutex_lock_def mutex_unlock_def futex_wait_def
  atomic_compare_exchange_strong_def MUTEX_ITERATIONS_def

lemmas mutex_pair_defs = mutex_pair_def mutex_thread_ok_def mutex_in_cs_def mutex_done_def

lemma mutex_body_pair:
  assumes p: "mutex_pair th oth lock cnt"
  shows "case mutex_body MUTEX_ITERATIONS th oth lock cnt of None \<Rightarrow> True
    | Some (th', oth', lock', cnt') \<Rightarrow> mutex_pair th' oth' lock' cnt'"
proof -
  have u: "unat (m_i th) < 2 ^ 31" using p by (simp add: mutex_pair_defs)
  then have l: "m_i th <s 1000000 \<longleftrightarrow> unat (m_i th) < 1000000" and i: "unat (m_i th + 1) = unat (m_i th) + 1"
    using c_int_sless_unat [of "m_i th" 1000000] c_int_inc_unat [of "m_i th"] by simp_all
  show ?thesis
  proof (cases "m_pc th")
    case MFor
    have "\<not> unat (m_i th) < 1000000 \<longrightarrow> m_i th = 1000000"
      using p by (auto simp: mutex_pair_defs le_less)
    with MFor p l show ?thesis
      by (cases "m_pc oth") (simp_all add: mutex_body_defs mutex_pair_defs)
  next
    case MCas
    with p show ?thesis
      by (cases "m_pc oth") (simp_all add: mutex_body_defs mutex_pair_defs)
  next
    case MWait
    with p show ?thesis
      by (cases "m_pc oth") (simp_all add: mutex_body_defs mutex_pair_defs)
  next
    case MSleep
    with p show ?thesis
      by (cases "m_pc oth") (simp_all add: mutex_body_defs mutex_pair_defs)
  next
    case MYield
    with p show ?thesis
      by (cases "m_pc oth") (simp_all add: mutex_body_defs mutex_pair_defs)
  next
    case MLoad
    with p show ?thesis
      by (cases "m_pc oth") (simp_all add: mutex_body_defs mutex_pair_defs)
  next
    case MStore
    with p show ?thesis
      by (cases "m_pc oth") (simp_all add: mutex_body_defs mutex_pair_defs)
  next
    case MPrintf
    with p show ?thesis
      by (cases "m_pc oth") (simp_all add: mutex_body_defs mutex_pair_defs)
  next
    case MCas_unlock
    with p i show ?thesis
      by (cases "m_pc oth") (simp_all add: mutex_body_defs mutex_pair_defs)
  next
    case MWake
    with p i show ?thesis
      by (cases "m_pc oth") (simp_all add: mutex_body_defs mutex_pair_defs)
  next
    case MEnd
    with p show ?thesis
      by (cases "m_pc oth") (simp_all add: mutex_body_defs mutex_pair_defs)
  qed
qed


lemma mutex_inv_step:
  assumes "mutex_inv s" and "mutex_step t s = Some s'"
  shows "mutex_inv s'"
proof (cases t)
  case T1
  with assms mutex_body_pair [of "m_thr s T1" "m_thr s T2" "m_lock s" "m_counter s"] show ?thesis
    by (auto simp: mutex_inv_def mutex_step_def mutex_thread_1_def)
next
  case T2
  have "mutex_pair (m_thr s T2) (m_thr s T1) (m_lock s) (m_counter s)"
    using assms(1) by (simp add: mutex_inv_def mutex_pair_commute)
  with T2 assms(2) mutex_body_pair [of "m_thr s T2" "m_thr s T1" "m_lock s" "m_counter s"]
  show ?thesis
    by (auto simp: mutex_step_def mutex_thread_2_def mutex_inv_def intro: mutex_pair_commute [THEN iffD1])
qed

fun mutex_rank_pc :: "mutex_pc \<Rightarrow> nat" where
  "mutex_rank_pc MFor = 10"
| "mutex_rank_pc MWait = 9"
| "mutex_rank_pc MSleep = 8"
| "mutex_rank_pc MYield = 7"
| "mutex_rank_pc MCas = 6"
| "mutex_rank_pc MLoad = 5"
| "mutex_rank_pc MStore = 4"
| "mutex_rank_pc MPrintf = 3"
| "mutex_rank_pc MCas_unlock = 2"
| "mutex_rank_pc MWake = 1"
| "mutex_rank_pc MEnd = 0"

definition mutex_rank_thread :: "mutex_thread \<Rightarrow> nat" where
  "mutex_rank_thread th = (1000000 - unat (m_i th)) * 20 + mutex_rank_pc (m_pc th)"

definition mutex_rank :: "mutex_sys \<Rightarrow> nat" where
  "mutex_rank s = mutex_rank_thread (m_thr s T1) + mutex_rank_thread (m_thr s T2)"

text \<open>The thread to schedule: one that is in its critical section or about to wake the other, if there is one.\<close>

lemma mutex_body_nearer:
  assumes "mutex_pair th oth lock cnt" and "m_pc th \<noteq> MEnd"
    and "m_pc th = MWake \<or> \<not> mutex_in_cs (m_pc oth) \<and> m_pc oth \<noteq> MWake"
  shows "\<exists>th' oth' lock' cnt'. mutex_body MUTEX_ITERATIONS th oth lock cnt = Some (th', oth', lock', cnt') \<and>
    mutex_rank_thread th' < mutex_rank_thread th \<and> mutex_rank_thread oth' = mutex_rank_thread oth"
proof -
  have "unat (m_i th) < 2 ^ 31" using assms(1) by (simp add: mutex_pair_defs)
  then have l: "m_i th <s 1000000 \<longleftrightarrow> unat (m_i th) < 1000000" and i: "unat (m_i th + 1) = unat (m_i th) + 1"
    using c_int_sless_unat [of "m_i th" 1000000] c_int_inc_unat [of "m_i th"] by simp_all
  from assms l i show ?thesis
    by (cases "m_pc th") (simp_all add: mutex_body_defs mutex_pair_defs mutex_rank_thread_def, (linarith | auto)?)
qed

lemma mutex_nearer:
  assumes "mutex_inv s" and "\<not> mutex_final s"
  shows "\<exists>t s'. mutex_step t s = Some s' \<and> mutex_rank s' < mutex_rank s"
proof -
  let ?a = "m_thr s T1" and ?b = "m_thr s T2"
  have p1: "mutex_pair ?a ?b (m_lock s) (m_counter s)" using assms(1) by (simp add: mutex_inv_def)
  then have p2: "mutex_pair ?b ?a (m_lock s) (m_counter s)" by (rule mutex_pair_commute [THEN iffD1])
  have "m_pc ?a \<noteq> MEnd \<and> (m_pc ?a = MWake \<or> \<not> mutex_in_cs (m_pc ?b) \<and> m_pc ?b \<noteq> MWake) \<or>
      m_pc ?b \<noteq> MEnd \<and> (m_pc ?b = MWake \<or> \<not> mutex_in_cs (m_pc ?a) \<and> m_pc ?a \<noteq> MWake)"
    using assms(2) p1 by (auto simp: mutex_final_def mutex_pair_def mutex_in_cs_def)
  then show ?thesis
  proof
    assume "m_pc ?a \<noteq> MEnd \<and> (m_pc ?a = MWake \<or> \<not> mutex_in_cs (m_pc ?b) \<and> m_pc ?b \<noteq> MWake)"
    with mutex_body_nearer [OF p1] show ?thesis
      by (intro exI [of _ T1]) (auto simp: mutex_step_def mutex_thread_1_def mutex_rank_def)
  next
    assume "m_pc ?b \<noteq> MEnd \<and> (m_pc ?b = MWake \<or> \<not> mutex_in_cs (m_pc ?a) \<and> m_pc ?a \<noteq> MWake)"
    with mutex_body_nearer [OF p2] show ?thesis
      by (intro exI [of _ T2]) (auto simp: mutex_step_def mutex_thread_2_def mutex_rank_def)
  qed
qed

interpretation futex: finishing mutex_step mutex_inv mutex_final mutex_rank
  using mutex_inv_step mutex_nearer by unfold_locales

text \<open>
  C4. \<open>mutex.c\<close>: in every interleaving at most one thread is between \<open>mutex_lock\<close> and \<open>mutex_unlock\<close>, a
  thread sleeps in the kernel only while the other one holds the mutex or is about to wake it (no
  wake-up is lost), the final value of \<open>counter\<close> is 2000000, and from every state the program can reach the
  threads can run on until both have returned.
\<close>

theorem futex_mutex_counts_correctly:
  assumes "futex_main err_1 err_2 = Some s0" and "steps mutex_step s0 s"
  shows "\<not> (mutex_in_cs (m_pc (m_thr s T1)) \<and> mutex_in_cs (m_pc (m_thr s T2))) \<and>
    (\<forall>t. m_asleep (m_thr s t) \<longrightarrow>
       mutex_in_cs (m_pc (m_thr s (other t))) \<or> m_pc (m_thr s (other t)) = MWake) \<and>
    (mutex_final s \<longrightarrow> m_counter s = 2000000) \<and> (\<exists>s'. steps mutex_step s s' \<and> mutex_final s')"
proof -
  from assms(1) have "s0 = \<lparr>m_lock = STATUS_UNLOCK, m_counter = 0,
      m_thr = (\<lambda>t. \<lparr>m_pc = MFor, m_i = 0, m_reg = 0, m_asleep = False\<rparr>)\<rparr>"
    by (simp add: futex_main_def mutex_init_def STATUS_UNLOCK_def split: if_splits)
  then have "mutex_inv s0" by (simp add: mutex_inv_def mutex_pair_defs)
  with assms(2) have inv: "mutex_inv s" by (rule futex.steps_inv)
  then have "mutex_final s \<longrightarrow> m_counter s = 2000000"
    by (auto simp: mutex_inv_def mutex_pair_defs mutex_final_def)
  moreover have "m_asleep (m_thr s t) \<longrightarrow>
      mutex_in_cs (m_pc (m_thr s (other t))) \<or> m_pc (m_thr s (other t)) = MWake" for t
    using inv by (cases t) (simp_all add: mutex_inv_def mutex_pair_def mutex_thread_ok_def)
  ultimately show ?thesis
    using inv futex.can_finish [OF inv] by (auto simp: mutex_inv_def mutex_pair_def)
qed

theorem futex_mutex_counts_correctly_witness:
  "\<exists>s0 s s'. futex_main 0 0 = Some s0 \<and> run mutex_step [T1, T1, T2, T2, T2, T1, T1, T1, T1] s0 = Some s \<and>
    m_asleep (m_thr s T2) \<and> m_pc (m_thr s T1) = MWake \<and> steps mutex_step s s' \<and> mutex_final s'"
proof -
  let ?s0 = "\<lparr>m_lock = STATUS_UNLOCK, m_counter = 0,
      m_thr = (\<lambda>t. \<lparr>m_pc = MFor, m_i = 0, m_reg = 0, m_asleep = False\<rparr>)\<rparr>"
  let ?ts = "[T1, T1, T2, T2, T2, T1, T1, T1, T1]"
  have m: "futex_main 0 0 = Some ?s0" by (simp add: futex_main_def mutex_init_def STATUS_UNLOCK_def)
  have "\<exists>s. run mutex_step ?ts ?s0 = Some s \<and> m_asleep (m_thr s T2) \<and> m_pc (m_thr s T1) = MWake"
    by (simp add: mutex_step_def mutex_thread_1_def mutex_thread_2_def mutex_body_defs word_sless_alt)
  then obtain s where s: "run mutex_step ?ts ?s0 = Some s" "m_asleep (m_thr s T2)" "m_pc (m_thr s T1) = MWake"
    by blast
  from futex_mutex_counts_correctly [OF m run_steps [OF s(1)]] s m show ?thesis by blast
qed

end
