(* ===== verification/Storage_List.thy ===== *)
theory Storage_List
  imports Prelude
begin

text \<open>
  The singly linked list of \<open>semestr2/Task2/Task2_3\<close> with one lock per node, in its three versions:
  \<open>main.c\<close> (mutex), \<open>spinlock.c\<close> (spin lock) and \<open>rwlock.c\<close> (read-write lock). The theory has the
  construction of the list, the statements its threads are made of and their meaning, and the shape that
  the hand-over-hand traversals of the three files have. Of the terminal output only that of
  \<open>print_storage\<close> is kept.
\<close>

section \<open>Data\<close>

datatype num_thread = INCREASING | DECREASING | EQUALS | RANDOM_SWAP_1 | RANDOM_SWAP_2 | RANDOM_SWAP_3 | MONITOR

definition SIZE_WORD :: nat where "SIZE_WORD = 100"
definition MIN_SIZE_LIST :: c_int where "MIN_SIZE_LIST = 3"

text \<open>A node; the array \<open>value\<close> as the string it holds. The lock \<open>sync\<close> of every node is kept in a table.\<close>

record node_t =
  nvalue :: string
  next_n :: ptr

record storage_t =
  first_n :: ptr

text \<open>
  What a thread may hold of a lock: a mutex, a spin lock and the write side of a read-write lock
  exclude everybody else, the read side excludes writers. The table says who holds what.
\<close>

datatype lmode = Excl | Shared

type_synonym 't lock_table = "addr \<Rightarrow> 't \<Rightarrow> lmode option"

definition compatible :: "lmode \<Rightarrow> lmode option \<Rightarrow> bool" where
  "compatible m held \<longleftrightarrow> held = None \<or> m = Shared \<and> held = Some Shared"

section \<open>Building the list\<close>

text \<open>\<open>create_node\<close>: \<open>strcpy\<close> of a string that does not fit is out of bounds.\<close>

definition create_node :: "addr option \<Rightarrow> string \<Rightarrow> node_t heap \<Rightarrow> fault + addr \<times> node_t heap" where
  "create_node alloc line h = (case alloc of None \<Rightarrow> Inl AssertFailed
     | Some a \<Rightarrow> if SIZE_WORD \<le> length line then Inl OutOfBounds
         else Inr (a, h(a \<mapsto> \<lparr>nvalue = line, next_n = None\<rparr>)))"

text \<open>The loop of \<open>append_new_node\<close>: to the last node. The outer \<open>None\<close>: it does not end.\<close>

partial_function (option) last_node :: "node_t heap \<Rightarrow> ptr \<Rightarrow> (fault + addr) option" where
  "last_node h current = (case load h current of Inl e \<Rightarrow> Some (Inl e)
     | Inr n \<Rightarrow> (case next_n n of None \<Rightarrow> Some (Inr (the current)) | Some a \<Rightarrow> last_node h (Some a)))"

definition append_new_node :: "storage_t \<Rightarrow> addr \<Rightarrow> node_t heap \<Rightarrow> (fault + storage_t \<times> node_t heap) option" where
  "append_new_node storage new_node h = (case first_n storage of
     None \<Rightarrow> Some (Inr (storage\<lparr>first_n := Some new_node\<rparr>, h))
   | Some a \<Rightarrow> (case last_node h (Some a) of None \<Rightarrow> None
      | Some (Inl e) \<Rightarrow> Some (Inl e)
      | Some (Inr b) \<Rightarrow> (case store h (Some b) (\<lambda>n. n\<lparr>next_n := Some new_node\<rparr>) of
          Inl e \<Rightarrow> Some (Inl e) | Inr h' \<Rightarrow> Some (Inr (storage, h')))))"

definition create_storage :: storage_t where
  "create_storage = \<lparr>first_n = None\<rparr>"

text \<open>
  The loop of \<open>init_storage\<close> from \<open>i\<close> on: \<open>words i\<close> is the contents of \<open>new_value\<close> in round \<open>i\<close>, \<open>alloc i\<close> the
  address \<open>malloc\<close> returns in it. \<open>fuel\<close> is the number of rounds left, \<open>SIZE_STORAGE - i + 1\<close>.
\<close>

fun init_loop :: "(nat \<Rightarrow> addr option) \<Rightarrow> (nat \<Rightarrow> string) \<Rightarrow> nat \<Rightarrow> nat \<Rightarrow> storage_t \<Rightarrow> node_t heap \<Rightarrow>
    (fault + storage_t \<times> node_t heap) option" where
  "init_loop alloc words i 0 storage h = Some (Inr (storage, h))"
| "init_loop alloc words i (Suc left) storage h = (case create_node (alloc i) (words i) h of
     Inl e \<Rightarrow> Some (Inl e)
   | Inr (a, h') \<Rightarrow> (case append_new_node storage a h' of None \<Rightarrow> None
      | Some (Inl e) \<Rightarrow> Some (Inl e)
      | Some (Inr (storage', h'')) \<Rightarrow> init_loop alloc words (Suc i) left storage' h''))"

text \<open>
  \<open>print_storage\<close>: the walk over the list with the values it prints in \<open>spinlock.c\<close> and \<open>rwlock.c\<close>; in \<open>main.c\<close> the output is commented out.
\<close>

partial_function (option) print_loop :: "node_t heap \<Rightarrow> ptr \<Rightarrow> string list \<Rightarrow> (fault + string list) option" where
  "print_loop h node out = (case node of None \<Rightarrow> Some (Inr out)
     | Some a \<Rightarrow> (case load h (Some a) of Inl e \<Rightarrow> Some (Inl e) | Inr n \<Rightarrow> print_loop h (next_n n) (out @ [nvalue n])))"

definition print_storage :: "storage_t \<Rightarrow> node_t heap \<Rightarrow> (fault + string list) option" where
  "print_storage storage h = print_loop h (first_n storage) []"

text \<open>\<open>swap_nodes\<close>; no thread calls it.\<close>

definition swap_nodes :: "ptr \<Rightarrow> ptr \<Rightarrow> ptr \<Rightarrow> node_t heap \<Rightarrow> fault + node_t heap" where
  "swap_nodes prev cur future h =
     (if prev = None \<or> cur = None \<or> future = None then Inl AssertFailed
      else case store h prev (\<lambda>n. n\<lparr>next_n := future\<rparr>) of Inl e \<Rightarrow> Inl e
      | Inr h1 \<Rightarrow> (case load h1 future of Inl e \<Rightarrow> Inl e
        | Inr fn \<Rightarrow> (case store h1 future (\<lambda>n. n\<lparr>next_n := cur\<rparr>) of Inl e \<Rightarrow> Inl e
          | Inr h2 \<Rightarrow> store h2 cur (\<lambda>n. n\<lparr>next_n := next_n fn\<rparr>))))"

text \<open>
  \<open>number_random_node\<close>: \<open>rand_r\<close> seeded with the time, again until the index is large enough. The
  argument is the stream of the numbers \<open>rand_r\<close> returns in the successive rounds; it is not
  negative.
\<close>

partial_function (option) number_random_node :: "nat \<Rightarrow> (nat \<Rightarrow> nat) \<Rightarrow> nat \<Rightarrow> nat option" where
  "number_random_node size_storage rand_r k =
     (let index = rand_r k mod (size_storage - 2)
      in if int index < sint MIN_SIZE_LIST then number_random_node size_storage rand_r (Suc k) else Some index)"

section \<open>The list in memory\<close>

fun slist :: "node_t heap \<Rightarrow> ptr \<Rightarrow> (addr \<times> string) list \<Rightarrow> bool" where
  "slist h p [] \<longleftrightarrow> p = None"
| "slist h p ((a, v) # xs) \<longleftrightarrow> p = Some a \<and> (\<exists>n. h a = Some \<lparr>nvalue = v, next_n = n\<rparr> \<and> slist h n xs)"

lemma slist_upd [simp]: "a \<notin> fst ` set xs \<Longrightarrow> slist (h(a := c)) p xs \<longleftrightarrow> slist h p xs"
  by (induction h p xs rule: slist.induct) auto

lemma slist_None: "slist h p xs \<Longrightarrow> p = None \<longleftrightarrow> xs = []"
  by (induction h p xs rule: slist.induct) auto

lemma last_node_slist: "slist h p xs \<Longrightarrow> xs \<noteq> [] \<Longrightarrow> last_node h p = Some (Inr (fst (last xs)))"
proof (induction xs arbitrary: p)
  case (Cons x xs)
  obtain a v where x: "x = (a, v)" by force
  with Cons.prems obtain n where n: "p = Some a" "h a = Some \<lparr>nvalue = v, next_n = n\<rparr>" "slist h n xs" by auto
  show ?case
  proof (cases xs)
    case Nil
    with n x show ?thesis by (simp add: last_node.simps [of h "Some a"])
  next
    case (Cons y ys)
    with n obtain b where "n = Some b" by (cases y) auto
    moreover have "last_node h n = Some (Inr (fst (last xs)))" using Cons.IH n Cons by simp
    ultimately show ?thesis using n x Cons by (simp add: last_node.simps [of h "Some a"])
  qed
qed simp

lemma print_loop_slist: "slist h p xs \<Longrightarrow> print_loop h p out = Some (Inr (out @ map snd xs))"
proof (induction xs arbitrary: p out)
  case (Cons x xs)
  obtain a v where x: "x = (a, v)" by force
  with Cons.prems obtain n where n: "p = Some a" "h a = Some \<lparr>nvalue = v, next_n = n\<rparr>" "slist h n xs" by auto
  from Cons.IH [OF n(3)] n x show ?case by (simp add: print_loop.simps [of h "Some a"] load_def)
qed (simp add: print_loop.simps)

lemma print_storage_slist: "slist h (first_n s) xs \<Longrightarrow> print_storage s h = Some (Inr (map snd xs))"
  by (simp add: print_storage_def print_loop_slist)

lemma slist_snoc:
  assumes "slist h p (xs @ [(b, w)])" and "distinct (map fst (xs @ [(b, w)]))"
    and "a \<notin> fst ` set (xs @ [(b, w)])" and "h a = Some \<lparr>nvalue = v, next_n = None\<rparr>"
  shows "\<exists>n. h b = Some n \<and> slist (h(b \<mapsto> n\<lparr>next_n := Some a\<rparr>)) p (xs @ [(b, w), (a, v)])"
  using assms by (induction xs arbitrary: p) auto

lemma append_slist:
  assumes "slist h (first_n s) xs" and "distinct (map fst xs)" and "a \<notin> fst ` set xs"
    and "h a = Some \<lparr>nvalue = v, next_n = None\<rparr>"
  shows "\<exists>s' h'. append_new_node s a h = Some (Inr (s', h')) \<and> slist h' (first_n s') (xs @ [(a, v)]) \<and>
    dom h' = dom h"
proof (cases xs rule: rev_cases)
  case Nil
  with assms show ?thesis by (simp add: append_new_node_def)
next
  case (snoc ys y)
  obtain b w where y: "y = (b, w)" by force
  from slist_None [OF assms(1)] snoc obtain c where c: "first_n s = Some c" by auto
  from last_node_slist [OF assms(1)] snoc y have l: "last_node h (Some c) = Some (Inr b)" using c by simp
  from slist_snoc [of h "first_n s" ys b w a v] assms snoc y obtain n where
    n: "h b = Some n" "slist (h(b \<mapsto> n\<lparr>next_n := Some a\<rparr>)) (first_n s) (ys @ [(b, w), (a, v)])" by auto
  then show ?thesis using c l snoc y by (auto simp: append_new_node_def)
qed

lemma init_loop_ok:
  assumes "slist h (first_n s) xs" and "distinct (map fst xs)" and "dom h = fst ` set xs"
    and "\<And>j. j < left \<Longrightarrow> alloc (i + j) = Some (a j) \<and> a j \<notin> dom h \<and> length (words (i + j)) < 100"
    and "inj_on a {..<left}"
  shows "\<exists>s' h'. init_loop alloc words i left s h = Some (Inr (s', h')) \<and>
    slist h' (first_n s') (xs @ map (\<lambda>j. (a j, words (i + j))) [0..<left]) \<and>
    distinct (map fst (xs @ map (\<lambda>j. (a j, words (i + j))) [0..<left]))"
  using assms
proof (induction left arbitrary: i a s h xs)
  case (Suc left)
  let ?h = "h(a 0 \<mapsto> \<lparr>nvalue = words i, next_n = None\<rparr>)"
  from Suc.prems(4) [of 0] have 0: "alloc i = Some (a 0)" "a 0 \<notin> dom h" "length (words i) < 100" by auto
  then have c: "create_node (alloc i) (words i) h = Inr (a 0, ?h)" by (simp add: create_node_def SIZE_WORD_def)
  have nin: "a 0 \<notin> fst ` set xs" using 0(2) Suc.prems(3) by simp
  with Suc.prems(1) have "slist ?h (first_n s) xs" by simp
  from append_slist [OF this Suc.prems(2) nin, of "words i"] obtain s1 h1 where
    1: "append_new_node s (a 0) ?h = Some (Inr (s1, h1))" "slist h1 (first_n s1) (xs @ [(a 0, words i)])" "dom h1 = dom ?h"
    by auto
  have a0: "a (Suc j) \<noteq> a 0" if "j < left" for j
    using Suc.prems(5) that by (auto simp: inj_on_def)
  have "\<exists>s' h'. init_loop alloc words (Suc i) left s1 h1 = Some (Inr (s', h')) \<and>
    slist h' (first_n s') ((xs @ [(a 0, words i)]) @ map (\<lambda>j. (a (Suc j), words (Suc i + j))) [0..<left]) \<and>
    distinct (map fst ((xs @ [(a 0, words i)]) @ map (\<lambda>j. (a (Suc j), words (Suc i + j))) [0..<left]))"
  proof (rule Suc.IH [OF 1(2)])
    show "distinct (map fst (xs @ [(a 0, words i)]))" using nin Suc.prems(2) by simp
    show "dom h1 = fst ` set (xs @ [(a 0, words i)])" using 1(3) Suc.prems(3) by auto
    show "alloc (Suc i + j) = Some (a (Suc j)) \<and> a (Suc j) \<notin> dom h1 \<and> length (words (Suc i + j)) < 100"
      if "j < left" for j using Suc.prems(4) [of "Suc j"] that 1(3) a0 by auto
    show "inj_on (\<lambda>j. a (Suc j)) {..<left}" using Suc.prems(5) by (auto simp: inj_on_def)
  qed
  moreover have "map (\<lambda>j. (a j, words (i + j))) [0..<Suc left] =
      (a 0, words i) # map (\<lambda>j. (a (Suc j), words (Suc i + j))) [0..<left]"
    by (simp add: upt_conv_Cons map_Suc_upt [symmetric] del: upt_Suc)
  ultimately show ?case using c 1(1) by simp
qed simp

end
