(* ===== verification/Storage_Threads.thy ===== *)
theory Storage_Threads
  imports Storage_List
begin

text \<open>
  The threads of \<open>semestr2/Task2/Task2_3\<close>: their statements and the interleaving semantics with one
  lock per node; the contract of a thread that walks the list hand over hand (it takes the
  locks in the order of the list), as a locale; and what follows for every system of such threads: no fault,
  locks that exclude, no deadlock.
\<close>

section \<open>Statements\<close>

datatype pvar = Node | Next | Tmp | Prev | Current | Future

datatype pexp = Var pvar | Arrow pexp \<comment> \<open>\<open>e->next\<close>\<close>

datatype cmp = Less | Greater | Same

datatype lstmt =
    Set_first pvar \<comment> \<open>\<open>x = storage->first;\<close>\<close>
  | Set pvar pexp
  | Counter_0
  | LLock lmode pexp \<comment> \<open>lock of \<open>e->sync\<close>\<close>
  | LUnlock pexp
  | If_null pexp "lstmt list" \<comment> \<open>\<open>if (e == NULL) {...}\<close>\<close>
  | Count_if cmp pexp pexp \<comment> \<open>\<open>if (strlen(e->value) < strlen(f->value)) ++counter;\<close>\<close>
  | While_true "lstmt list"
  | Break
  | Continue_outer
  | Set_index \<comment> \<open>\<open>index = number_random_node();\<close>\<close>
  | I_0
  | Break_unless_i_lt_index
  | I_inc
  | Incr_count \<comment> \<open>\<open>++count_increment[...];\<close>\<close>
  | Print_counts

text \<open>
  A thread: what is left of the current pass, the inner loop it is in and what follows it, the
  body of its endless loop, its variables.
\<close>

record lthread =
  lcode :: "lstmt list"
  lloop :: "lstmt list"
  lafter :: "lstmt list"
  lbody :: "lstmt list"
  vars :: "pvar \<Rightarrow> ptr"
  counter :: c_int
  l_i :: nat
  l_index :: nat

fun eval_p :: "(pvar \<Rightarrow> ptr) \<Rightarrow> node_t heap \<Rightarrow> pexp \<Rightarrow> fault + ptr" where
  "eval_p v h (Var x) = Inr (v x)"
| "eval_p v h (Arrow e) = (case eval_p v h e of Inl f \<Rightarrow> Inl f
     | Inr p \<Rightarrow> (case load h p of Inl f \<Rightarrow> Inl f | Inr n \<Rightarrow> Inr (next_n n)))"

fun cmp_holds :: "cmp \<Rightarrow> string \<Rightarrow> string \<Rightarrow> bool" where
  "cmp_holds Less a b \<longleftrightarrow> length a < length b"
| "cmp_holds Greater a b \<longleftrightarrow> length a > length b"
| "cmp_holds Same a b \<longleftrightarrow> length a = length b"

text \<open>What the next statement of a thread asks of the system.\<close>

datatype laction =
    Do lthread
  | Acquire lmode addr lthread
  | Release addr lthread
  | Tick lthread \<comment> \<open>a pass is finished and counted\<close>
  | Crash fault

definition with_ptr :: "fault + ptr \<Rightarrow> (ptr \<Rightarrow> laction) \<Rightarrow> laction" where
  "with_ptr r f = (case r of Inl e \<Rightarrow> Crash e | Inr p \<Rightarrow> f p)"

definition with_node :: "fault + ptr \<Rightarrow> node_t heap \<Rightarrow> (addr \<Rightarrow> node_t \<Rightarrow> laction) \<Rightarrow> laction" where
  "with_node r h f = with_ptr r (\<lambda>p. case load h p of Inl e \<Rightarrow> Crash e | Inr n \<Rightarrow> f (the p) n)"

text \<open>\<open>l\<close> is the thread after the statement was taken off; \<open>r\<close> is what \<open>number_random_node\<close> returns.\<close>

fun stmt_action :: "nat \<Rightarrow> lstmt \<Rightarrow> lthread \<Rightarrow> storage_t \<Rightarrow> node_t heap \<Rightarrow> laction" where
  "stmt_action r (Set_first x) l s h = Do (l\<lparr>vars := (vars l)(x := first_n s)\<rparr>)"
| "stmt_action r (Set x e) l s h = with_ptr (eval_p (vars l) h e) (\<lambda>p. Do (l\<lparr>vars := (vars l)(x := p)\<rparr>))"
| "stmt_action r Counter_0 l s h = Do (l\<lparr>counter := 0\<rparr>)"
| "stmt_action r (LLock m e) l s h = with_node (eval_p (vars l) h e) h (\<lambda>a n. Acquire m a l)"
| "stmt_action r (LUnlock e) l s h = with_node (eval_p (vars l) h e) h (\<lambda>a n. Release a l)"
| "stmt_action r (If_null e b) l s h =
     with_ptr (eval_p (vars l) h e) (\<lambda>p. Do (if p = None then l\<lparr>lcode := b @ lcode l\<rparr> else l))"
| "stmt_action r (Count_if c e f) l s h = with_node (eval_p (vars l) h e) h (\<lambda>a m.
     with_node (eval_p (vars l) h f) h (\<lambda>b n.
       Do (if cmp_holds c (nvalue m) (nvalue n) then l\<lparr>counter := counter l + 1\<rparr> else l)))"
| "stmt_action r (While_true b) l s h = Do (l\<lparr>lloop := b, lafter := lcode l, lcode := b\<rparr>)"
| "stmt_action r Break l s h = Do (l\<lparr>lcode := lafter l, lloop := []\<rparr>)"
| "stmt_action r Continue_outer l s h = Do (l\<lparr>lcode := [], lloop := []\<rparr>)"
| "stmt_action r Set_index l s h = Do (l\<lparr>l_index := r\<rparr>)"
| "stmt_action r I_0 l s h = Do (l\<lparr>l_i := 0\<rparr>)"
| "stmt_action r Break_unless_i_lt_index l s h =
     Do (if l_i l < l_index l then l else l\<lparr>lcode := lafter l, lloop := []\<rparr>)"
| "stmt_action r I_inc l s h = Do (l\<lparr>l_i := l_i l + 1\<rparr>)"
| "stmt_action r Incr_count l s h = Tick l"
| "stmt_action r Print_counts l s h = Do l"

definition next_action :: "nat \<Rightarrow> lthread \<Rightarrow> storage_t \<Rightarrow> node_t heap \<Rightarrow> laction" where
  "next_action r l s h = (case lcode l of
     [] \<Rightarrow> Do (l\<lparr>lcode := (if lloop l = [] then lbody l else lloop l)\<rparr>)
   | x # k \<Rightarrow> stmt_action r x (l\<lparr>lcode := k\<rparr>) s h)"

section \<open>The system\<close>

record lsys =
  lheap :: "node_t heap"
  lstore :: storage_t
  ltable :: "num_thread lock_table"
  lthreads :: "num_thread \<Rightarrow> lthread"
  lcounts :: "num_thread \<Rightarrow> c_int"
  lfault :: "fault option"

definition all_threads :: "num_thread list" where
  "all_threads = [INCREASING, DECREASING, EQUALS, RANDOM_SWAP_1, RANDOM_SWAP_2, RANDOM_SWAP_3, MONITOR]"

text \<open>Whether \<open>t\<close> can take the lock of \<open>a\<close>: nobody holds it in a conflicting mode, not even \<open>t\<close>.\<close>

definition can_acquire :: "num_thread lock_table \<Rightarrow> num_thread \<Rightarrow> lmode \<Rightarrow> addr \<Rightarrow> bool" where
  "can_acquire tab t m a \<longleftrightarrow> tab a t = None \<and> list_all (\<lambda>u. u = t \<or> compatible m (tab a u)) all_threads"

text \<open>One step of thread \<open>t\<close>; \<open>None\<close>: it waits for a lock, or the program has crashed.\<close>

definition lstep :: "num_thread \<times> nat \<Rightarrow> lsys \<Rightarrow> lsys option" where
  "lstep tr s = (case tr of (t, r) \<Rightarrow> if lfault s \<noteq> None then None else
     case next_action r (lthreads s t) (lstore s) (lheap s) of
       Do l \<Rightarrow> Some (s\<lparr>lthreads := (lthreads s)(t := l)\<rparr>)
     | Acquire m a l \<Rightarrow> if can_acquire (ltable s) t m a
         then Some (s\<lparr>lthreads := (lthreads s)(t := l), ltable := (ltable s)(a := (ltable s a)(t := Some m))\<rparr>)
         else None
     | Release a l \<Rightarrow>
         Some (s\<lparr>lthreads := (lthreads s)(t := l), ltable := (ltable s)(a := (ltable s a)(t := None))\<rparr>)
     | Tick l \<Rightarrow> Some (s\<lparr>lthreads := (lthreads s)(t := l), lcounts := (lcounts s)(t := lcounts s t + 1)\<rparr>)
     | Crash f \<Rightarrow> Some (s\<lparr>lfault := Some f\<rparr>))"

inductive lreach :: "lsys \<Rightarrow> lsys \<Rightarrow> bool" for s0 where
  lreach_refl: "lreach s0 s0"
| lreach_step: "lreach s0 s \<Longrightarrow> lstep tr s = Some s' \<Longrightarrow> lreach s0 s'"

fun lrun :: "(num_thread \<times> nat) list \<Rightarrow> lsys \<Rightarrow> lsys option" where
  "lrun [] s = Some s"
| "lrun (x # xs) s = (case lstep x s of None \<Rightarrow> None | Some s' \<Rightarrow> lrun xs s')"

lemma lreach_from: "lreach s1 s2 \<Longrightarrow> lstep tr s0 = Some s1 \<Longrightarrow> lreach s0 s2"
  by (induction rule: lreach.induct) (auto intro: lreach.intros)

lemma lrun_lreach: "lrun xs s = Some s' \<Longrightarrow> lreach s s'"
  by (induction xs arbitrary: s) (auto split: option.splits intro: lreach.intros lreach_from)

section \<open>Threads that walk hand over hand\<close>

text \<open>The place of a node in the list.\<close>

definition place :: "(addr \<times> string) list \<Rightarrow> addr \<Rightarrow> nat" where
  "place xs a = length (takeWhile (\<lambda>x. fst x \<noteq> a) xs)"

lemma place_nth: "distinct (map fst xs) \<Longrightarrow> i < length xs \<Longrightarrow> place xs (fst (xs ! i)) = i"
proof (induction xs arbitrary: i)
  case (Cons x xs)
  then show ?case by (cases i) (auto simp: place_def)
qed (simp add: place_def)

lemma place_le: "place xs a \<le> length xs"
  by (simp add: place_def length_takeWhile_le)

text \<open>
  The contract. \<open>T a\<close> is what the thread holds of node \<open>a\<close>. A thread never crashes, takes only locks
  of nodes of the list, all behind those it holds, and releases only what it holds; \<open>fin\<close> is what
  has to be true of a thread when it counts a pass.
\<close>

locale hand_over_hand =
  fixes xs :: "(addr \<times> string) list"
    and h :: "node_t heap"
    and st :: storage_t
    and ok :: "num_thread \<Rightarrow> lthread \<Rightarrow> (addr \<Rightarrow> lmode option) \<Rightarrow> bool"
    and fin :: "num_thread \<Rightarrow> lthread \<Rightarrow> bool"
  assumes ok_action: "ok t l T \<Longrightarrow> case next_action r l st h of
      Do l' \<Rightarrow> ok t l' T
    | Acquire m a l' \<Rightarrow> T a = None \<and> (\<forall>b. T b \<noteq> None \<longrightarrow> place xs b < place xs a) \<and> ok t l' (T(a := Some m))
    | Release a l' \<Rightarrow> T a \<noteq> None \<and> ok t l' (T(a := None))
    | Tick l' \<Rightarrow> fin t l \<and> ok t l' T
    | Crash f \<Rightarrow> False"
    and ok_monitor: "ok MONITOR l T \<Longrightarrow> T a = None"
begin

definition linv :: "lsys \<Rightarrow> bool" where
  "linv s \<longleftrightarrow> lfault s = None \<and> lheap s = h \<and> lstore s = st \<and>
     (\<forall>t. ok t (lthreads s t) (\<lambda>a. ltable s a t)) \<and>
     (\<forall>a t u. ltable s a t = Some Excl \<longrightarrow> ltable s a u \<noteq> None \<longrightarrow> t = u)"

lemma all_threads: "list_all P all_threads \<longleftrightarrow> (\<forall>t. P t)"
proof -
  have "t \<in> set all_threads" for t by (cases t) (simp_all add: all_threads_def)
  then show ?thesis by (auto simp: list_all_iff)
qed

lemma acquire_excludes:
  assumes "\<forall>a t u. tab a t = Some Excl \<longrightarrow> tab a u \<noteq> None \<longrightarrow> t = u" and "can_acquire tab t m a"
    and "tab' = tab(a := (tab a)(t := Some m))"
  shows "\<forall>a t u. tab' a t = Some Excl \<longrightarrow> tab' a u \<noteq> None \<longrightarrow> t = u"
  using assms unfolding can_acquire_def all_threads compatible_def
  by (auto split: if_splits)

lemma ok_after:
  assumes inv: "linv s" and s': "lthreads s' = (lthreads s)(t := l)" "ltable s' = (ltable s)(a := (ltable s a)(t := x))"
    and ok: "ok t l ((\<lambda>b. ltable s b t)(a := x))"
  shows "ok u (lthreads s' u) (\<lambda>b. ltable s' b u)"
proof (cases "u = t")
  case True
  have "(\<lambda>b. ltable s' b t) = (\<lambda>b. ltable s b t)(a := x)" by (auto simp: s')
  with True ok show ?thesis by (simp add: s'(1))
next
  case False
  then have "(\<lambda>b. ltable s' b u) = (\<lambda>b. ltable s b u)" by (auto simp: s')
  with False inv show ?thesis by (simp add: s'(1) linv_def)
qed

lemma linv_step:
  assumes inv: "linv s" and step: "lstep (t, r) s = Some s'"
  shows "linv s'"
proof -
  from inv have o: "ok t (lthreads s t) (\<lambda>a. ltable s a t)" and h: "lheap s = h" "lstore s = st" "lfault s = None"
    by (simp_all add: linv_def)
  note act = ok_action [OF o, of r]
  show ?thesis
  proof (cases "next_action r (lthreads s t) st h")
    case (Do l)
    with act step inv h show ?thesis by (auto simp: lstep_def linv_def)
  next
    case (Acquire m a l)
    with step h have c: "can_acquire (ltable s) t m a"
      and s': "s' = s\<lparr>lthreads := (lthreads s)(t := l), ltable := (ltable s)(a := (ltable s a)(t := Some m))\<rparr>"
      by (auto simp: lstep_def split: if_splits)
    have tab: "ltable s' = (ltable s)(a := (ltable s a)(t := Some m))" by (simp add: s')
    have "\<forall>b u w. ltable s' b u = Some Excl \<longrightarrow> ltable s' b w \<noteq> None \<longrightarrow> u = w"
      by (rule acquire_excludes [OF _ c tab]) (use inv in \<open>simp add: linv_def\<close>)
    moreover have "ok u (lthreads s' u) (\<lambda>b. ltable s' b u)" for u
      by (rule ok_after [OF inv, of s' t l a "Some m"]) (use act Acquire in \<open>simp_all add: s'\<close>)
    moreover have "lfault s' = None" "lheap s' = h" "lstore s' = st" using inv s' by (simp_all add: linv_def)
    ultimately show ?thesis unfolding linv_def by blast
  next
    case (Release a l)
    with step h have s': "s' = s\<lparr>lthreads := (lthreads s)(t := l), ltable := (ltable s)(a := (ltable s a)(t := None))\<rparr>"
      by (auto simp: lstep_def)
    have "ok u (lthreads s' u) (\<lambda>b. ltable s' b u)" for u
      by (rule ok_after [OF inv, of s' t l a None]) (use act Release in \<open>simp_all add: s'\<close>)
    with inv show ?thesis by (auto simp: linv_def s' split: if_splits)
  next
    case (Tick l)
    with act step inv h show ?thesis by (auto simp: lstep_def linv_def)
  next
    case (Crash f)
    with act show ?thesis by simp
  qed
qed

lemma lreach_inv: "lreach s0 s \<Longrightarrow> linv s0 \<Longrightarrow> linv s"
proof (induction rule: lreach.induct)
  case (lreach_step s tr s')
  then show ?case using linv_step by (cases tr) blast
qed

text \<open>
  No deadlock: of the threads that wait, take one that waits for a node as far back in the list as
  possible; whoever holds that node waits for one further back, or does not wait.
\<close>

definition waits_at :: "lsys \<Rightarrow> num_thread \<Rightarrow> nat \<Rightarrow> bool" where
  "waits_at s t i \<longleftrightarrow> (\<exists>m a l. next_action 0 (lthreads s t) st h = Acquire m a l \<and> place xs a = i \<and>
     \<not> can_acquire (ltable s) t m a)"

lemma waits_holder:
  assumes "linv s" and "waits_at s t i"
  obtains u a where "ltable s a u \<noteq> None" "place xs a = i"
proof -
  from assms obtain m a l where a: "next_action 0 (lthreads s t) st h = Acquire m a l" "place xs a = i"
    "\<not> can_acquire (ltable s) t m a" by (auto simp: waits_at_def)
  have "ok t (lthreads s t) (\<lambda>a. ltable s a t)" using assms by (simp add: linv_def)
  from ok_action [OF this, of 0] a have "ltable s a t = None" by simp
  with a(3) obtain u where "ltable s a u \<noteq> None"
    unfolding can_acquire_def all_threads compatible_def by blast
  with a(2) show ?thesis using that by blast
qed

lemma waits_behind:
  assumes "linv s" and "waits_at s u j" and "ltable s a u \<noteq> None"
  shows "place xs a < j"
proof -
  have "ok u (lthreads s u) (\<lambda>a. ltable s a u)" using assms by (simp add: linv_def)
  from ok_action [OF this, of 0] assms(2,3) show ?thesis by (auto simp: waits_at_def)
qed

theorem no_deadlock:
  assumes inv: "linv s"
  shows "\<exists>t s'. t \<noteq> MONITOR \<and> lstep (t, 0) s = Some s'"
proof (rule ccontr)
  assume no: "\<not> ?thesis"
  have w: "\<exists>i. waits_at s t i" if "t \<noteq> MONITOR" for t
  proof (rule ccontr)
    assume "\<nexists>i. waits_at s t i"
    from no that have "lstep (t, 0) s = None" by (metis option.exhaust)
    with inv obtain m a l where "next_action 0 (lthreads s t) st h = Acquire m a l" "\<not> can_acquire (ltable s) t m a"
      by (auto simp: lstep_def linv_def split: laction.splits if_splits)
    with \<open>\<nexists>i. waits_at s t i\<close> show False by (auto simp: waits_at_def)
  qed
  let ?W = "{i. \<exists>t. waits_at s t i}"
  have fin: "finite ?W"
    by (rule finite_subset [of _ "{..length xs}"]) (auto simp: waits_at_def place_le)
  have "?W \<noteq> {}" using w [of EQUALS] by auto
  with fin have mem: "Max ?W \<in> ?W" by (rule Max_in)
  then obtain t where "waits_at s t (Max ?W)" by blast
  from waits_holder [OF inv this] obtain u a where u: "ltable s a u \<noteq> None" "place xs a = Max ?W" .
  moreover have "ltable s a MONITOR = None"
    using ok_monitor [of "lthreads s MONITOR" "\<lambda>a. ltable s a MONITOR" a] inv by (simp add: linv_def)
  ultimately have "u \<noteq> MONITOR" by auto
  from w [OF this] obtain j where j: "waits_at s u j" by blast
  with waits_behind [OF inv j u(1)] u(2) have "Max ?W < j" by simp
  moreover have "j \<le> Max ?W" using fin j by (intro Max_ge) auto
  ultimately show False by simp
qed

lemma linv_fin:
  assumes "linv s" and "lcode (lthreads s t) = Incr_count # k"
  shows "fin t (lthreads s t)"
proof -
  have "ok t (lthreads s t) (\<lambda>a. ltable s a t)" using assms by (simp add: linv_def)
  from ok_action [OF this, of 0] assms(2) show ?thesis by (simp add: next_action_def)
qed

end

end
