(* ===== verification/Storage_Walk.thy ===== *)
theory Storage_Walk
  imports Storage_Threads
begin

text \<open>
  The two kinds of passes over the list: \<open>find_increasing\<close>, \<open>find_decreasing\<close> and \<open>find_equals\<close> compare
  neighbours under two locks, \<open>random_swap\<close> walks to a random place under three. For each, the
  assertions between its statements and the proof that it walks hand over hand; and that a finished
  comparison has counted the pairs of neighbours exactly.
\<close>

section \<open>Counting pairs\<close>

fun pairs :: "cmp \<Rightarrow> string list \<Rightarrow> nat" where
  "pairs c (a # b # vs) = (if cmp_holds c a b then 1 else 0) + pairs c (b # vs)"
| "pairs c _ = 0"

lemma pairs_snoc: "pairs c (vs @ [a, b]) = pairs c (vs @ [a]) + (if cmp_holds c a b then 1 else 0)"
proof (induction vs)
  case (Cons x vs)
  then show ?case by (cases vs) auto
qed simp

lemma pairs_take:
  assumes "Suc i < length vs"
  shows "pairs c (take (Suc (Suc i)) vs) = pairs c (take (Suc i) vs) + (if cmp_holds c (vs ! i) (vs ! Suc i) then 1 else 0)"
proof -
  have "take (Suc i) vs = take i vs @ [vs ! i]" using assms by (simp add: take_Suc_conv_app_nth)
  moreover have "take (Suc (Suc i)) vs = take i vs @ [vs ! i, vs ! Suc i]"
    using assms by (simp add: take_Suc_conv_app_nth)
  ultimately show ?thesis by (simp add: pairs_snoc)
qed

section \<open>Pointers into the list\<close>

definition nptr :: "(addr \<times> string) list \<Rightarrow> nat \<Rightarrow> ptr" where
  "nptr xs i = (if i < length xs then Some (fst (xs ! i)) else None)"

abbreviation naddr :: "(addr \<times> string) list \<Rightarrow> nat \<Rightarrow> addr" where
  "naddr xs i \<equiv> fst (xs ! i)"

lemma nptr_Some [simp]: "i < length xs \<Longrightarrow> nptr xs i = Some (naddr xs i)"
  by (simp add: nptr_def)

lemma nptr_None [simp]: "nptr xs i = None \<longleftrightarrow> length xs \<le> i"
  by (auto simp: nptr_def)

lemma slist_node:
  "slist h p xs \<Longrightarrow> i < length xs \<Longrightarrow> h (naddr xs i) = Some \<lparr>nvalue = snd (xs ! i), next_n = nptr xs (Suc i)\<rparr>"
proof (induction xs arbitrary: p i)
  case (Cons x xs)
  obtain a v where x: "x = (a, v)" by force
  with Cons.prems obtain n where n: "h a = Some \<lparr>nvalue = v, next_n = n\<rparr>" "slist h n xs" by auto
  have "n = nptr (x # xs) (Suc 0)" using n(2) by (cases xs) (auto simp: nptr_def)
  with n x Cons.IH [OF n(2)] Cons.prems(2) show ?case by (cases i) (auto simp: nptr_def)
qed simp

lemma slist_first: "slist h p xs \<Longrightarrow> p = nptr xs 0"
  by (cases xs) (auto simp: nptr_def)

section \<open>Comparing neighbours\<close>

definition finder_walk :: "lmode \<Rightarrow> cmp \<Rightarrow> lstmt list" where
  "finder_walk m c = [LLock m (Var Node), Set Tmp (Var Node), Set Next (Arrow (Var Node)),
     If_null (Var Next) [LUnlock (Var Node), Break],
     LLock m (Var Next), Count_if c (Var Node) (Var Next),
     Set Node (Arrow (Var Node)), LUnlock (Var Next), LUnlock (Var Tmp)]"

definition finder :: "lmode \<Rightarrow> cmp \<Rightarrow> lstmt list" where
  "finder m c = [Counter_0, Set_first Node,
     If_null (Var Node) [Continue_outer], If_null (Arrow (Var Node)) [Continue_outer],
     While_true (finder_walk m c), Incr_count]"

text \<open>Inside the walk, at the node number \<open>i\<close>, with the pairs up to node \<open>k\<close> counted.\<close>

definition finder_in :: "(addr \<times> string) list \<Rightarrow> lmode \<Rightarrow> cmp \<Rightarrow> lthread \<Rightarrow> nat \<Rightarrow> nat \<Rightarrow> bool" where
  "finder_in xs m c l i k \<longleftrightarrow> lbody l = finder m c \<and> lloop l = finder_walk m c \<and> lafter l = [Incr_count] \<and>
     i < length xs \<and> k < length xs \<and> vars l Node = nptr xs i \<and> counter l = of_nat (pairs c (take (Suc k) (map snd xs)))"

text \<open>\<open>finder_at\<close>: the assertions; the last argument is what the thread holds.\<close>

inductive finder_at :: "(addr \<times> string) list \<Rightarrow> lmode \<Rightarrow> cmp \<Rightarrow> lthread \<Rightarrow> (addr \<rightharpoonup> lmode) \<Rightarrow> bool" for xs m c l where
  fo0: "lbody l = finder m c \<Longrightarrow> lloop l = [] \<Longrightarrow> lcode l \<in> {[], finder m c, Continue_outer # k} \<Longrightarrow>
    finder_at xs m c l Map.empty"
| fo1: "lbody l = finder m c \<Longrightarrow> lloop l = [] \<Longrightarrow> lcode l = drop 1 (finder m c) \<Longrightarrow> counter l = 0 \<Longrightarrow>
    finder_at xs m c l Map.empty"
| fo2: "lbody l = finder m c \<Longrightarrow> lloop l = [] \<Longrightarrow> lcode l = drop 2 (finder m c) \<Longrightarrow> counter l = 0 \<Longrightarrow>
    vars l Node = nptr xs 0 \<Longrightarrow> finder_at xs m c l Map.empty"
| fo3: "lbody l = finder m c \<Longrightarrow> lloop l = [] \<Longrightarrow> lcode l \<in> {drop 3 (finder m c), drop 4 (finder m c)} \<Longrightarrow>
    counter l = 0 \<Longrightarrow> vars l Node = nptr xs 0 \<Longrightarrow> xs \<noteq> [] \<Longrightarrow> finder_at xs m c l Map.empty"
| fi0: "finder_in xs m c l i i \<Longrightarrow> lcode l \<in> {[], finder_walk m c} \<Longrightarrow> finder_at xs m c l Map.empty"
| fi1: "finder_in xs m c l i i \<Longrightarrow> lcode l = drop 1 (finder_walk m c) \<Longrightarrow> finder_at xs m c l [naddr xs i \<mapsto> m]"
| fi2: "finder_in xs m c l i i \<Longrightarrow> lcode l = drop 2 (finder_walk m c) \<Longrightarrow> vars l Tmp = nptr xs i \<Longrightarrow>
    finder_at xs m c l [naddr xs i \<mapsto> m]"
| fi3: "finder_in xs m c l i i \<Longrightarrow> lcode l = drop 3 (finder_walk m c) \<Longrightarrow> vars l Tmp = nptr xs i \<Longrightarrow>
    vars l Next = nptr xs (Suc i) \<Longrightarrow> finder_at xs m c l [naddr xs i \<mapsto> m]"
| fi3a: "finder_in xs m c l i i \<Longrightarrow> lcode l = LUnlock (Var Node) # Break # k \<Longrightarrow> Suc i = length xs \<Longrightarrow>
    finder_at xs m c l [naddr xs i \<mapsto> m]"
| fi3b: "finder_in xs m c l i i \<Longrightarrow> lcode l = Break # k \<Longrightarrow> Suc i = length xs \<Longrightarrow> finder_at xs m c l Map.empty"
| fi4: "finder_in xs m c l i i \<Longrightarrow> lcode l = drop 4 (finder_walk m c) \<Longrightarrow> vars l Tmp = nptr xs i \<Longrightarrow>
    vars l Next = nptr xs (Suc i) \<Longrightarrow> Suc i < length xs \<Longrightarrow> finder_at xs m c l [naddr xs i \<mapsto> m]"
| fi5: "finder_in xs m c l i i \<Longrightarrow> lcode l = drop 5 (finder_walk m c) \<Longrightarrow> vars l Tmp = nptr xs i \<Longrightarrow>
    vars l Next = nptr xs (Suc i) \<Longrightarrow> Suc i < length xs \<Longrightarrow>
    finder_at xs m c l [naddr xs i \<mapsto> m, naddr xs (Suc i) \<mapsto> m]"
| fi6: "finder_in xs m c l i (Suc i) \<Longrightarrow> lcode l = drop 6 (finder_walk m c) \<Longrightarrow> vars l Tmp = nptr xs i \<Longrightarrow>
    vars l Next = nptr xs (Suc i) \<Longrightarrow> finder_at xs m c l [naddr xs i \<mapsto> m, naddr xs (Suc i) \<mapsto> m]"
| fi7: "finder_in xs m c l (Suc i) (Suc i) \<Longrightarrow> lcode l = drop 7 (finder_walk m c) \<Longrightarrow> vars l Tmp = nptr xs i \<Longrightarrow>
    vars l Next = nptr xs (Suc i) \<Longrightarrow> finder_at xs m c l [naddr xs i \<mapsto> m, naddr xs (Suc i) \<mapsto> m]"
| fi8: "finder_in xs m c l (Suc i) (Suc i) \<Longrightarrow> lcode l = drop 8 (finder_walk m c) \<Longrightarrow> vars l Tmp = nptr xs i \<Longrightarrow>
    finder_at xs m c l [naddr xs i \<mapsto> m]"
| fe: "lbody l = finder m c \<Longrightarrow> lloop l = [] \<Longrightarrow> lcode l = [Incr_count] \<Longrightarrow>
    counter l = of_nat (pairs c (map snd xs)) \<Longrightarrow> finder_at xs m c l Map.empty"

text \<open>What the contract \<open>hand_over_hand\<close> asks of one step.\<close>

definition step_safe :: "(addr \<times> string) list \<Rightarrow> (lthread \<Rightarrow> (addr \<rightharpoonup> lmode) \<Rightarrow> bool) \<Rightarrow> bool \<Rightarrow>
    (addr \<rightharpoonup> lmode) \<Rightarrow> laction \<Rightarrow> bool" where
  "step_safe xs ok fin T act \<longleftrightarrow> (case act of
      Do l' \<Rightarrow> ok l' T
    | Acquire m a l' \<Rightarrow> T a = None \<and> (\<forall>b. T b \<noteq> None \<longrightarrow> place xs b < place xs a) \<and> ok l' (T(a := Some m))
    | Release a l' \<Rightarrow> T a \<noteq> None \<and> ok l' (T(a := None))
    | Tick l' \<Rightarrow> fin \<and> ok l' T
    | Crash f \<Rightarrow> False)"

lemma with_ptr_Inr [simp]: "with_ptr (Inr p) f = f p"
  by (simp add: with_ptr_def)

lemma with_node_Some [simp]: "h a = Some n \<Longrightarrow> with_node (Inr (Some a)) h f = f a n"
  by (simp add: with_node_def)

lemmas finder_defs = finder_def finder_walk_def

lemma naddr_distinct:
  "distinct (map fst xs) \<Longrightarrow> i < length xs \<Longrightarrow> j < length xs \<Longrightarrow> naddr xs i = naddr xs j \<longleftrightarrow> i = j"
  by (metis length_map nth_eq_iff_index_eq nth_map)

lemmas walk_simps = step_safe_def next_action_def finder_defs finder_in_def

text \<open>The statements before and after the walk, then those of the walk.\<close>

lemma finder_outer_safe:
  assumes "finder_at xs m c l T" and sl: "slist h (first_n st) xs" and out: "lloop l = []"
  shows "step_safe xs (finder_at xs m c) (counter l = of_nat (pairs c (map snd xs))) T (next_action r l st h)"
  using assms(1)
proof cases
  case (fo0 k)
  from fo0(4) have "lcode l = [] \<or> lcode l = finder m c \<or> lcode l = Continue_outer # k" by simp
  then show ?thesis
  proof (elim disjE)
    assume "lcode l = []"
    with fo0 show ?thesis by (simp add: walk_simps) (rule finder_at.fo0; simp add: finder_defs)
  next
    assume "lcode l = finder m c"
    with fo0 show ?thesis by (simp add: walk_simps) (rule finder_at.fo1; simp add: finder_defs)
  next
    assume "lcode l = Continue_outer # k"
    with fo0 show ?thesis by (simp add: walk_simps) (rule finder_at.fo0; simp add: finder_defs)
  qed
next
  case fo1
  with slist_first [OF sl] show ?thesis by (simp add: walk_simps) (rule finder_at.fo2; simp add: finder_defs)
next
  case fo2
  show ?thesis
  proof (cases "xs = []")
    case True
    with fo2 show ?thesis by (simp add: walk_simps nptr_def) (rule finder_at.fo0; simp add: finder_defs)
  next
    case False
    with fo2 show ?thesis by (simp add: walk_simps) (rule finder_at.fo3; simp add: finder_defs)
  qed
next
  case fo3
  note n0 = slist_node [OF sl, of 0]
  from fo3 have "lcode l = drop 3 (finder m c) \<or> lcode l = drop 4 (finder m c)" by simp
  then show ?thesis
  proof
    assume "lcode l = drop 3 (finder m c)"
    with fo3 n0 show ?thesis
      by (simp add: walk_simps) (auto intro: finder_at.fo0 finder_at.fo3 simp: finder_defs)
  next
    assume "lcode l = drop 4 (finder m c)"
    with fo3 show ?thesis
      by (simp add: walk_simps) (rule finder_at.fi0 [where i = 0]; cases xs; simp add: walk_simps)
  qed
next
  case fe
  then show ?thesis by (simp add: walk_simps) (rule finder_at.fo0; simp add: finder_defs)
qed (use out in \<open>simp_all add: finder_in_def finder_walk_def\<close>)

lemma finder_safe:
  assumes "finder_at xs m c l T" and sl: "slist h (first_n st) xs" and d: "distinct (map fst xs)"
  shows "step_safe xs (finder_at xs m c) (counter l = of_nat (pairs c (map snd xs))) T (next_action r l st h)"
proof (cases "lloop l = []")
  case True
  with finder_outer_safe [OF assms(1) sl] show ?thesis by blast
next
  case False
  show ?thesis
    using assms(1)
  proof cases
    case (fi0 i)
    note n = slist_node [OF sl, of i]
    from fi0 have "lcode l = [] \<or> lcode l = finder_walk m c" by simp
    then show ?thesis
    proof
      assume "lcode l = []"
      with fi0 show ?thesis by (simp add: walk_simps) (rule finder_at.fi0 [where i = i]; simp add: walk_simps)
    next
      assume "lcode l = finder_walk m c"
      with fi0 n show ?thesis by (simp add: walk_simps) (rule finder_at.fi1 [where i = i]; simp add: walk_simps)
    qed
  next
    case (fi1 i)
    then show ?thesis by (simp add: walk_simps) (rule finder_at.fi2 [where i = i]; simp add: walk_simps)
  next
    case (fi2 i)
    with slist_node [OF sl, of i] show ?thesis
      by (simp add: walk_simps) (rule finder_at.fi3 [where i = i]; simp add: walk_simps)
  next
    case (fi3 i)
    show ?thesis
    proof (cases "Suc i < length xs")
      case True
      with fi3 show ?thesis by (simp add: walk_simps) (rule finder_at.fi4 [where i = i]; simp add: walk_simps)
    next
      case False
      with fi3 have "Suc i = length xs" by (simp add: finder_in_def)
      with fi3 show ?thesis by (simp add: walk_simps) (rule finder_at.fi3a [where i = i]; simp add: walk_simps)
    qed
  next
    case (fi3a i k)
    with slist_node [OF sl, of i] show ?thesis
      by (simp add: walk_simps) (rule finder_at.fi3b [where i = i]; simp add: walk_simps)
  next
    case (fi3b i k)
    then show ?thesis by (simp add: walk_simps) (rule finder_at.fe; simp add: walk_simps)
  next
    case (fi4 i)
    with slist_node [OF sl, of "Suc i"] place_nth [OF d, of i] place_nth [OF d, of "Suc i"] naddr_distinct [OF d, of "Suc i" i]
    show ?thesis by (simp add: walk_simps) (rule finder_at.fi5 [where i = i]; simp add: walk_simps)
  next
    case (fi5 i)
    with slist_node [OF sl, of "Suc i"] slist_node [OF sl, of i] pairs_take [of i "map snd xs" c]
    show ?thesis by (simp add: walk_simps) (auto intro!: finder_at.fi6 [where i = i] simp: walk_simps)
  next
    case (fi6 i)
    with slist_node [OF sl, of i]
    show ?thesis by (simp add: walk_simps) (rule finder_at.fi7 [where i = i]; simp add: walk_simps)
  next
    case (fi7 i)
    with slist_node [OF sl, of "Suc i"] naddr_distinct [OF d, of "Suc i" i]
    show ?thesis by (simp add: walk_simps) (rule finder_at.fi8 [where i = i]; simp add: walk_simps)
  next
    case (fi8 i)
    with slist_node [OF sl, of i]
    show ?thesis by (simp add: walk_simps) (rule finder_at.fi0 [where i = "Suc i"]; simp add: walk_simps)
  qed (use False in simp_all)
qed

section \<open>Walking to a random place\<close>

definition swapper_walk :: "lstmt list" where
  "swapper_walk = [Break_unless_i_lt_index,
     LLock Excl (Var Prev), If_null (Arrow (Var Prev)) [LUnlock (Var Prev), Break],
     LLock Excl (Arrow (Var Prev)),
     If_null (Arrow (Arrow (Var Prev))) [LUnlock (Arrow (Var Prev)), LUnlock (Var Prev), Break],
     LLock Excl (Arrow (Arrow (Var Prev))),
     Set Node (Var Prev), Set Prev (Arrow (Var Prev)), Set Current (Arrow (Var Current)),
     Set Future (Arrow (Var Future)),
     LUnlock (Arrow (Arrow (Var Node))), LUnlock (Arrow (Var Node)), LUnlock (Var Node), I_inc]"

definition swapper :: "lstmt list" where
  "swapper = [Set_first Prev, If_null (Var Prev) [Continue_outer], If_null (Arrow (Var Prev)) [Continue_outer],
     Set_index, Set Current (Arrow (Var Prev)), Set Future (Arrow (Arrow (Var Prev))), I_0,
     While_true swapper_walk, Incr_count]"

text \<open>In the walk, with \<open>prev\<close>, \<open>current\<close> and \<open>future\<close> at the given places.\<close>

definition swapper_in :: "(addr \<times> string) list \<Rightarrow> lthread \<Rightarrow> nat \<Rightarrow> nat \<Rightarrow> nat \<Rightarrow> bool" where
  "swapper_in xs l i j k \<longleftrightarrow> lbody l = swapper \<and> lloop l = swapper_walk \<and> lafter l = [Incr_count] \<and>
     i < length xs \<and> vars l Prev = nptr xs i \<and> vars l Current = nptr xs j \<and> vars l Future = nptr xs k"

definition swapper_out :: "lthread \<Rightarrow> bool" where
  "swapper_out l \<longleftrightarrow> lbody l = swapper \<and> lloop l = []"

abbreviation hold1 :: "(addr \<times> string) list \<Rightarrow> nat \<Rightarrow> addr \<rightharpoonup> lmode" where
  "hold1 xs i \<equiv> [naddr xs i \<mapsto> Excl]"
abbreviation hold2 :: "(addr \<times> string) list \<Rightarrow> nat \<Rightarrow> addr \<rightharpoonup> lmode" where
  "hold2 xs i \<equiv> [naddr xs i \<mapsto> Excl, naddr xs (Suc i) \<mapsto> Excl]"
abbreviation hold3 :: "(addr \<times> string) list \<Rightarrow> nat \<Rightarrow> addr \<rightharpoonup> lmode" where
  "hold3 xs i \<equiv> [naddr xs i \<mapsto> Excl, naddr xs (Suc i) \<mapsto> Excl, naddr xs (Suc (Suc i)) \<mapsto> Excl]"

inductive swapper_at :: "(addr \<times> string) list \<Rightarrow> lthread \<Rightarrow> (addr \<rightharpoonup> lmode) \<Rightarrow> bool" for xs l where
  so0: "swapper_out l \<Longrightarrow> lcode l \<in> {[], swapper, Continue_outer # k, [Incr_count]} \<Longrightarrow> swapper_at xs l Map.empty"
| so1: "swapper_out l \<Longrightarrow> lcode l = drop 1 swapper \<Longrightarrow> vars l Prev = nptr xs 0 \<Longrightarrow> swapper_at xs l Map.empty"
| so2: "swapper_out l \<Longrightarrow> lcode l = drop 2 swapper \<Longrightarrow> vars l Prev = nptr xs 0 \<Longrightarrow> xs \<noteq> [] \<Longrightarrow>
    swapper_at xs l Map.empty"
| so3: "swapper_out l \<Longrightarrow> lcode l \<in> {drop 3 swapper, drop 4 swapper} \<Longrightarrow> vars l Prev = nptr xs 0 \<Longrightarrow>
    1 < length xs \<Longrightarrow> swapper_at xs l Map.empty"
| so5: "swapper_out l \<Longrightarrow> lcode l = drop 5 swapper \<Longrightarrow> vars l Prev = nptr xs 0 \<Longrightarrow> vars l Current = nptr xs 1 \<Longrightarrow>
    1 < length xs \<Longrightarrow> swapper_at xs l Map.empty"
| so6: "swapper_out l \<Longrightarrow> lcode l \<in> {drop 6 swapper, drop 7 swapper} \<Longrightarrow> vars l Prev = nptr xs 0 \<Longrightarrow>
    vars l Current = nptr xs 1 \<Longrightarrow> vars l Future = nptr xs 2 \<Longrightarrow> 1 < length xs \<Longrightarrow> swapper_at xs l Map.empty"
| sw0: "swapper_in xs l i (Suc i) (Suc (Suc i)) \<Longrightarrow> lcode l \<in> {[], swapper_walk, drop 1 swapper_walk, Break # k} \<Longrightarrow>
    swapper_at xs l Map.empty"
| sw2: "swapper_in xs l i (Suc i) (Suc (Suc i)) \<Longrightarrow> lcode l \<in> {drop 2 swapper_walk, LUnlock (Var Prev) # Break # k} \<Longrightarrow>
    swapper_at xs l (hold1 xs i)"
| sw3: "swapper_in xs l i (Suc i) (Suc (Suc i)) \<Longrightarrow> lcode l = drop 3 swapper_walk \<Longrightarrow> Suc i < length xs \<Longrightarrow>
    swapper_at xs l (hold1 xs i)"
| sw4: "swapper_in xs l i (Suc i) (Suc (Suc i)) \<Longrightarrow> Suc i < length xs \<Longrightarrow>
    lcode l \<in> {drop 4 swapper_walk, LUnlock (Arrow (Var Prev)) # LUnlock (Var Prev) # Break # k} \<Longrightarrow>
    swapper_at xs l (hold2 xs i)"
| sw5: "swapper_in xs l i (Suc i) (Suc (Suc i)) \<Longrightarrow> lcode l = drop 5 swapper_walk \<Longrightarrow> Suc (Suc i) < length xs \<Longrightarrow>
    swapper_at xs l (hold2 xs i)"
| sw6: "swapper_in xs l i (Suc i) (Suc (Suc i)) \<Longrightarrow> lcode l = drop 6 swapper_walk \<Longrightarrow> Suc (Suc i) < length xs \<Longrightarrow>
    swapper_at xs l (hold3 xs i)"
| sw7: "swapper_in xs l i (Suc i) (Suc (Suc i)) \<Longrightarrow> lcode l = drop 7 swapper_walk \<Longrightarrow> Suc (Suc i) < length xs \<Longrightarrow>
    vars l Node = nptr xs i \<Longrightarrow> swapper_at xs l (hold3 xs i)"
| sw8: "swapper_in xs l (Suc i) (Suc i) (Suc (Suc i)) \<Longrightarrow> lcode l = drop 8 swapper_walk \<Longrightarrow> Suc (Suc i) < length xs \<Longrightarrow>
    vars l Node = nptr xs i \<Longrightarrow> swapper_at xs l (hold3 xs i)"
| sw9: "swapper_in xs l (Suc i) (Suc (Suc i)) (Suc (Suc i)) \<Longrightarrow> lcode l = drop 9 swapper_walk \<Longrightarrow>
    Suc (Suc i) < length xs \<Longrightarrow> vars l Node = nptr xs i \<Longrightarrow> swapper_at xs l (hold3 xs i)"
| sw10: "swapper_in xs l (Suc i) (Suc (Suc i)) (Suc (Suc (Suc i))) \<Longrightarrow> lcode l = drop 10 swapper_walk \<Longrightarrow>
    Suc (Suc i) < length xs \<Longrightarrow> vars l Node = nptr xs i \<Longrightarrow> swapper_at xs l (hold3 xs i)"
| sw11: "swapper_in xs l (Suc i) (Suc (Suc i)) (Suc (Suc (Suc i))) \<Longrightarrow> lcode l = drop 11 swapper_walk \<Longrightarrow>
    Suc (Suc i) < length xs \<Longrightarrow> vars l Node = nptr xs i \<Longrightarrow> swapper_at xs l (hold2 xs i)"
| sw12: "swapper_in xs l (Suc i) (Suc (Suc i)) (Suc (Suc (Suc i))) \<Longrightarrow> lcode l = drop 12 swapper_walk \<Longrightarrow>
    Suc (Suc i) < length xs \<Longrightarrow> vars l Node = nptr xs i \<Longrightarrow> swapper_at xs l (hold1 xs i)"
| sw13: "swapper_in xs l (Suc i) (Suc (Suc i)) (Suc (Suc (Suc i))) \<Longrightarrow> lcode l = drop 13 swapper_walk \<Longrightarrow>
    swapper_at xs l Map.empty"

lemmas swap_simps = step_safe_def next_action_def swapper_def swapper_walk_def swapper_in_def swapper_out_def

text \<open>The statements before and after the walk.\<close>

lemma swapper_outer_safe:
  assumes "swapper_at xs l T" and sl: "slist h (first_n st) xs" and out: "lloop l = []"
  shows "step_safe xs (swapper_at xs) True T (next_action r l st h)"
  using assms(1)
proof cases
  case (so0 k)
  then show ?thesis using slist_first [OF sl]
    by (elim insertE emptyE) (auto simp: step_safe_def next_action_def swapper_out_def swapper_def
      intro: swapper_at.so0 [unfolded swapper_def swapper_out_def] swapper_at.so1 [unfolded swapper_def swapper_out_def])
next
  case so1
  show ?thesis
  proof (cases "xs = []")
    case True
    with so1 show ?thesis by (simp add: swap_simps nptr_def) (rule swapper_at.so0; simp add: swap_simps)
  next
    case False
    with so1 show ?thesis by (simp add: swap_simps) (rule swapper_at.so2; simp add: swap_simps)
  qed
next
  case so2
  with slist_node [OF sl, of 0] show ?thesis
    by (simp add: swap_simps) (auto intro: swapper_at.so0 swapper_at.so3 simp: swap_simps)
next
  case so3
  from so3 have "lcode l = drop 3 swapper \<or> lcode l = drop 4 swapper" by simp
  then show ?thesis
  proof
    assume "lcode l = drop 3 swapper"
    with so3 show ?thesis by (simp add: swap_simps) (rule swapper_at.so3; simp add: swap_simps)
  next
    assume c: "lcode l = drop 4 swapper"
    have "xs \<noteq> []" using so3 by auto
    with c so3 slist_node [OF sl, of 0] show ?thesis
      by (simp add: swap_simps) (rule swapper_at.so5; simp add: swap_simps)
  qed
next
  case so5
  then have "xs \<noteq> []" by auto
  with so5 slist_node [OF sl, of 0] slist_node [OF sl, of 1] nptr_Some [of 0 xs] nptr_Some [of 1 xs] show ?thesis
    by (simp add: swap_simps) (rule swapper_at.so6; simp add: swap_simps numeral_2_eq_2)
next
  case so6
  from so6 have "lcode l = drop 6 swapper \<or> lcode l = drop 7 swapper" by simp
  then show ?thesis
  proof
    assume "lcode l = drop 6 swapper"
    with so6 show ?thesis by (simp add: swap_simps) (rule swapper_at.so6; simp add: swap_simps)
  next
    assume "lcode l = drop 7 swapper"
    with so6 show ?thesis
      by (simp add: swap_simps) (rule swapper_at.sw0 [where i = 0]; cases xs; simp add: swap_simps numeral_2_eq_2)
  qed
qed (use out in \<open>simp_all add: swapper_in_def swapper_walk_def\<close>)

text \<open>The walk with no lock, one lock and two locks, where it may leave the loop.\<close>

lemma swapper_free_safe:
  assumes "swapper_in xs l i (Suc i) (Suc (Suc i))" and "lcode l \<in> {[], swapper_walk, drop 1 swapper_walk, Break # k}"
    and sl: "slist h (first_n st) xs"
  shows "step_safe xs (swapper_at xs) True Map.empty (next_action r l st h)"
proof -
  from assms have "lcode l = [] \<or> lcode l = swapper_walk \<or> lcode l = drop 1 swapper_walk \<or> lcode l = Break # k" by simp
  then show ?thesis
  proof (elim disjE)
    assume "lcode l = []"
    with assms show ?thesis by (simp add: swap_simps) (rule swapper_at.sw0 [where i = i]; simp add: swap_simps)
  next
    assume w: "lcode l = swapper_walk"
    show ?thesis
    proof (cases "l_i l < l_index l")
      case True
      with w assms show ?thesis by (simp add: swap_simps) (rule swapper_at.sw0 [where i = i]; simp add: swap_simps)
    next
      case False
      with w assms show ?thesis by (simp add: swap_simps) (rule swapper_at.so0; simp add: swap_simps)
    qed
  next
    assume "lcode l = drop 1 swapper_walk"
    with assms slist_node [OF sl, of i] show ?thesis
      by (simp add: swap_simps) (rule swapper_at.sw2 [where i = i]; simp add: swap_simps)
  next
    assume "lcode l = Break # k"
    with assms show ?thesis by (simp add: swap_simps) (rule swapper_at.so0; simp add: swap_simps)
  qed
qed

lemma swapper_one_safe:
  assumes "swapper_in xs l i (Suc i) (Suc (Suc i))" and "lcode l \<in> {drop 2 swapper_walk, LUnlock (Var Prev) # Break # k}"
    and sl: "slist h (first_n st) xs"
  shows "step_safe xs (swapper_at xs) True (hold1 xs i) (next_action r l st h)"
proof -
  from assms have "lcode l = drop 2 swapper_walk \<or> lcode l = LUnlock (Var Prev) # Break # k" by simp
  then show ?thesis
  proof
    assume "lcode l = drop 2 swapper_walk"
    with assms slist_node [OF sl, of i] show ?thesis
      by (simp add: swap_simps) (auto intro: swapper_at.sw2 [where i = i] swapper_at.sw3 [where i = i] simp: swap_simps)
  next
    assume "lcode l = LUnlock (Var Prev) # Break # k"
    with assms slist_node [OF sl, of i] show ?thesis
      by (simp add: swap_simps) (rule swapper_at.sw0 [where i = i]; simp add: swap_simps)
  qed
qed

lemma swapper_two_safe:
  assumes "swapper_in xs l i (Suc i) (Suc (Suc i))" and "Suc i < length xs"
    and "lcode l \<in> {drop 4 swapper_walk, LUnlock (Arrow (Var Prev)) # LUnlock (Var Prev) # Break # k}"
    and sl: "slist h (first_n st) xs" and d: "distinct (map fst xs)"
  shows "step_safe xs (swapper_at xs) True (hold2 xs i) (next_action r l st h)"
proof -
  from assms have "lcode l = drop 4 swapper_walk \<or> lcode l = LUnlock (Arrow (Var Prev)) # LUnlock (Var Prev) # Break # k" by simp
  then show ?thesis
  proof
    assume "lcode l = drop 4 swapper_walk"
    with assms slist_node [OF sl, of i] slist_node [OF sl, of "Suc i"] show ?thesis
      by (simp add: swap_simps) (auto intro: swapper_at.sw4 [where i = i] swapper_at.sw5 [where i = i] simp: swap_simps)
  next
    assume "lcode l = LUnlock (Arrow (Var Prev)) # LUnlock (Var Prev) # Break # k"
    with assms slist_node [OF sl, of i] slist_node [OF sl, of "Suc i"] naddr_distinct [OF d, of "Suc i" i] show ?thesis
      by (simp add: swap_simps) (rule swapper_at.sw2 [where i = i]; simp add: swap_simps)
  qed
qed

lemma swapper_safe:
  assumes "swapper_at xs l T" and sl: "slist h (first_n st) xs" and d: "distinct (map fst xs)"
  shows "step_safe xs (swapper_at xs) True T (next_action r l st h)"
proof (cases "lloop l = []")
  case True
  with swapper_outer_safe [OF assms(1) sl] show ?thesis by blast
next
  case False
  show ?thesis
    using assms(1)
  proof cases
    case (sw0 i k)
    from swapper_free_safe [OF sw0(2,3) sl] sw0(1) show ?thesis by simp
  next
    case (sw2 i k)
    from swapper_one_safe [OF sw2(2,3) sl] sw2(1) show ?thesis by simp
  next
    case (sw3 i)
    with slist_node [OF sl, of i] slist_node [OF sl, of "Suc i"] place_nth [OF d, of i] place_nth [OF d, of "Suc i"]
      naddr_distinct [OF d, of "Suc i" i]
    show ?thesis by (simp add: swap_simps) (rule swapper_at.sw4 [where i = i]; simp add: swap_simps)
  next
    case (sw4 i k)
    from swapper_two_safe [OF sw4(2-4) sl d] sw4(1) show ?thesis by simp
  next
    case (sw5 i)
    with slist_node [OF sl, of i] slist_node [OF sl, of "Suc i"] slist_node [OF sl, of "Suc (Suc i)"]
      place_nth [OF d, of i] place_nth [OF d, of "Suc i"] place_nth [OF d, of "Suc (Suc i)"]
      naddr_distinct [OF d, of "Suc (Suc i)" i] naddr_distinct [OF d, of "Suc (Suc i)" "Suc i"]
    show ?thesis by (simp add: swap_simps) (rule swapper_at.sw6 [where i = i]; simp add: swap_simps)
  next
    case (sw6 i)
    then show ?thesis by (simp add: swap_simps) (rule swapper_at.sw7 [where i = i]; simp add: swap_simps)
  next
    case (sw7 i)
    with slist_node [OF sl, of i] show ?thesis
      by (simp add: swap_simps) (rule swapper_at.sw8 [where i = i]; simp add: swap_simps)
  next
    case (sw8 i)
    with slist_node [OF sl, of "Suc i"] show ?thesis
      by (simp add: swap_simps) (rule swapper_at.sw9 [where i = i]; simp add: swap_simps)
  next
    case (sw9 i)
    with slist_node [OF sl, of "Suc (Suc i)"] show ?thesis
      by (simp add: swap_simps) (rule swapper_at.sw10 [where i = i]; simp add: swap_simps)
  next
    case (sw10 i)
    with slist_node [OF sl, of i] slist_node [OF sl, of "Suc i"] slist_node [OF sl, of "Suc (Suc i)"]
      naddr_distinct [OF d, of "Suc (Suc i)" i] naddr_distinct [OF d, of "Suc (Suc i)" "Suc i"]
    show ?thesis by (simp add: swap_simps) (rule swapper_at.sw11 [where i = i]; simp add: swap_simps)
  next
    case (sw11 i)
    with slist_node [OF sl, of i] slist_node [OF sl, of "Suc i"] naddr_distinct [OF d, of "Suc i" i]
    show ?thesis by (simp add: swap_simps) (rule swapper_at.sw12 [where i = i]; simp add: swap_simps)
  next
    case (sw12 i)
    with slist_node [OF sl, of i]
    show ?thesis by (simp add: swap_simps) (rule swapper_at.sw13 [where i = i]; simp add: swap_simps)
  next
    case (sw13 i)
    then show ?thesis by (simp add: swap_simps) (rule swapper_at.sw0 [where i = "Suc i"]; simp add: swap_simps)
  qed (use False in \<open>simp_all add: swapper_out_def\<close>)
qed

end
