(* ===== verification/Storage_Files.thy ===== *)
theory Storage_Files
  imports Storage_Walk
begin

text \<open>
  The three programs of \<open>semestr2/Task2/Task2_3\<close>: \<open>main.c\<close> with a mutex in every node, \<open>spinlock.c\<close> with a spin
  lock, \<open>rwlock.c\<close> with a read-write lock. For every file the size of the list, the loop that
  builds it, the bodies of its threads and \<open>main\<close>; then the correctness of the three programs from the contract
  \<open>hand_over_hand\<close>, the behaviour of \<open>swap_nodes\<close>, and the range of \<open>number_random_node\<close>.
\<close>

section \<open>What the threads of a program keep\<close>

fun storage_ok :: "(addr \<times> string) list \<Rightarrow> node_t heap \<Rightarrow> storage_t \<Rightarrow> lmode \<Rightarrow> cmp \<Rightarrow> num_thread \<Rightarrow> lthread \<Rightarrow>
    (addr \<rightharpoonup> lmode) \<Rightarrow> bool" where
  "storage_ok xs h s m c t l T \<longleftrightarrow> slist h (first_n s) xs \<and> distinct (map fst xs) \<and> (case t of
       INCREASING \<Rightarrow> finder_at xs m Less l T
     | DECREASING \<Rightarrow> finder_at xs m c l T
     | EQUALS \<Rightarrow> finder_at xs m Same l T
     | MONITOR \<Rightarrow> lbody l = [Print_counts] \<and> lloop l = [] \<and> lcode l \<in> {[], [Print_counts]} \<and> T = Map.empty
     | _ \<Rightarrow> swapper_at xs l T)"

text \<open>\<open>c\<close> is the comparison of \<open>find_decreasing\<close>, which is not the same in all files.\<close>

fun storage_fin :: "(addr \<times> string) list \<Rightarrow> cmp \<Rightarrow> num_thread \<Rightarrow> lthread \<Rightarrow> bool" where
  "storage_fin xs c INCREASING l \<longleftrightarrow> counter l = of_nat (pairs Less (map snd xs))"
| "storage_fin xs c DECREASING l \<longleftrightarrow> counter l = of_nat (pairs c (map snd xs))"
| "storage_fin xs c EQUALS l \<longleftrightarrow> counter l = of_nat (pairs Same (map snd xs))"
| "storage_fin xs c t l \<longleftrightarrow> True"

lemma step_safe_mono:
  assumes "step_safe xs ok fin T act" and "\<And>l T. ok l T \<Longrightarrow> ok' l T" and "fin \<Longrightarrow> fin'"
  shows "step_safe xs ok' fin' T act"
  using assms by (auto simp: step_safe_def split: laction.splits)

lemma storage_step_safe:
  assumes "storage_ok xs h s m c t l T"
  shows "step_safe xs (storage_ok xs h s m c t) (storage_fin xs c t l) T (next_action r l s h)"
proof -
  from assms have sl: "slist h (first_n s) xs" and d: "distinct (map fst xs)" by simp_all
  note f = finder_safe [OF _ sl d, of _ _ l T r] and w = swapper_safe [OF _ sl d, of l T r]
  show ?thesis
  proof (cases t)
    case INCREASING
    with assms show ?thesis by (intro step_safe_mono [OF f [of m Less]]) (simp_all add: sl d)
  next
    case DECREASING
    with assms show ?thesis by (intro step_safe_mono [OF f [of m c]]) (simp_all add: sl d)
  next
    case EQUALS
    with assms show ?thesis by (intro step_safe_mono [OF f [of m Same]]) (simp_all add: sl d)
  next
    case MONITOR
    with assms show ?thesis by (auto simp: step_safe_def next_action_def)
  qed (use assms in \<open>intro step_safe_mono [OF w]; simp add: sl d\<close>)+
qed

interpretation storage: hand_over_hand xs h s "storage_ok xs h s m c" "storage_fin xs c" for xs h s m c
proof
  show "case next_action r l s h of Do l' \<Rightarrow> storage_ok xs h s m c t l' T
    | Acquire m' a l' \<Rightarrow> T a = None \<and> (\<forall>b. T b \<noteq> None \<longrightarrow> place xs b < place xs a) \<and> storage_ok xs h s m c t l' (T(a \<mapsto> m'))
    | Release a l' \<Rightarrow> T a \<noteq> None \<and> storage_ok xs h s m c t l' (T(a := None))
    | Tick l' \<Rightarrow> storage_fin xs c t l \<and> storage_ok xs h s m c t l' T | Crash f \<Rightarrow> False"
    if "storage_ok xs h s m c t l T" for t l T r
    using storage_step_safe [OF that, of r] by (simp add: step_safe_def)
  show "T a = None" if "storage_ok xs h s m c MONITOR l T" for l T a using that by simp
qed

text \<open>A program: the body of each thread. All threads start at the head of their loops.\<close>

definition storage_start :: "(num_thread \<Rightarrow> lstmt list) \<Rightarrow> storage_t \<Rightarrow> node_t heap \<Rightarrow> lsys" where
  "storage_start bodies s h = \<lparr>lheap = h, lstore = s, ltable = (\<lambda>a t. None),
     lthreads = (\<lambda>t. \<lparr>lcode = [], lloop = [], lafter = [], lbody = bodies t, vars = (\<lambda>x. None),
       counter = 0, l_i = 0, l_index = 0\<rparr>), lcounts = (\<lambda>t. 0), lfault = None\<rparr>"

definition storage_shape :: "lmode \<Rightarrow> cmp \<Rightarrow> (num_thread \<Rightarrow> lstmt list) \<Rightarrow> bool" where
  "storage_shape m c bodies \<longleftrightarrow> bodies INCREASING = finder m Less \<and> bodies DECREASING = finder m c \<and>
     bodies EQUALS = finder m Same \<and> bodies RANDOM_SWAP_1 = swapper \<and> bodies RANDOM_SWAP_2 = swapper \<and>
     bodies RANDOM_SWAP_3 = swapper \<and> bodies MONITOR = [Print_counts]"

text \<open>
  What is shown of every reachable state of a program over the list \<open>xs\<close>: no fault, a lock held exclusively is held by
  nobody else, one of the six working threads can take a step, and a finished comparison has counted
  exactly.
\<close>

definition storage_good :: "(addr \<times> string) list \<Rightarrow> cmp \<Rightarrow> lsys \<Rightarrow> bool" where
  "storage_good xs c s \<longleftrightarrow> lfault s = None \<and>
     (\<forall>a t u. ltable s a t = Some Excl \<longrightarrow> ltable s a u \<noteq> None \<longrightarrow> t = u) \<and>
     (\<exists>t s'. t \<noteq> MONITOR \<and> lstep (t, 0) s = Some s') \<and>
     (\<forall>t k. lcode (lthreads s t) = Incr_count # k \<longrightarrow> storage_fin xs c t (lthreads s t))"

lemma storage_correct:
  assumes "storage_shape m c bodies" and "slist h (first_n s) xs" and "distinct (map fst xs)"
    and "lreach (storage_start bodies s h) s1"
  shows "storage_good xs c s1"
proof -
  have ok: "storage_ok xs h s m c t (lthreads (storage_start bodies s h) t) Map.empty" for t
    using assms(1-3) by (cases t) (auto simp: storage_shape_def storage_start_def swapper_out_def
      intro!: finder_at.fo0 swapper_at.so0)
  then have "storage.linv h s xs m c (storage_start bodies s h)"
    unfolding storage.linv_def by (simp add: storage_start_def)
  with assms(4) have inv: "storage.linv h s xs m c s1" by (rule storage.lreach_inv)
  then have 1: "lfault s1 = None \<and> (\<forall>a t u. ltable s1 a t = Some Excl \<longrightarrow> ltable s1 a u \<noteq> None \<longrightarrow> t = u)"
    unfolding storage.linv_def by blast
  from inv have 2: "\<exists>t s'. t \<noteq> MONITOR \<and> lstep (t, 0) s1 = Some s'" by (rule storage.no_deadlock)
  from storage.linv_fin [OF inv] 1 2 show ?thesis unfolding storage_good_def by blast
qed

lemma init_storage_ok:
  assumes "inj alloc" and "\<And>i. length (words i) < 100"
  shows "\<exists>s h. init_loop (\<lambda>i. Some (alloc i)) words 1 n create_storage Map.empty = Some (Inr (s, h)) \<and>
    slist h (first_n s) (map (\<lambda>j. (alloc (Suc j), words (Suc j))) [0..<n]) \<and>
    distinct (map fst (map (\<lambda>j. (alloc (Suc j), words (Suc j))) [0..<n]))"
proof -
  have "inj_on (\<lambda>j. alloc (Suc j)) {..<n}" using assms(1) by (auto simp: inj_on_def inj_def)
  from init_loop_ok [of Map.empty create_storage "[]" n "\<lambda>i. Some (alloc i)" 1 "\<lambda>j. alloc (Suc j)" words, OF _ _ _ _ this]
  show ?thesis using assms(2) by (simp add: create_storage_def)
qed

lemma create_new_node_length: "length (''create new node '' @ digits (1000 - i + 1)) < 100"
proof -
  have "1000 - i + 1 < 10 ^ Suc 3" by simp
  from digits_length [OF this] show ?thesis by simp
qed

section \<open>main.c\<close>











section \<open>spinlock.c\<close>

definition spn_SIZE_STORAGE :: nat where "spn_SIZE_STORAGE = 1000"

definition spn_init_storage :: "(nat \<Rightarrow> addr option) \<Rightarrow> storage_t \<Rightarrow> node_t heap \<Rightarrow>
    (fault + storage_t \<times> node_t heap) option" where
  "spn_init_storage alloc storage h =
     init_loop alloc (\<lambda>i. ''create new node '' @ digits (spn_SIZE_STORAGE - i + 1)) 1 spn_SIZE_STORAGE storage h"

definition spn_find_increasing :: "lstmt list" where
  "spn_find_increasing = [Counter_0, Set_first Node,
     If_null (Var Node) [Continue_outer], If_null (Arrow (Var Node)) [Continue_outer],
     While_true
       [LLock Excl (Var Node), Set Tmp (Var Node), Set Next (Arrow (Var Node)),
        If_null (Var Next) [LUnlock (Var Node), Break],
        LLock Excl (Var Next), Count_if Less (Var Node) (Var Next),
        Set Node (Arrow (Var Node)), LUnlock (Var Next), LUnlock (Var Tmp)],
     Incr_count]"

definition spn_find_decreasing :: "lstmt list" where
  "spn_find_decreasing = [Counter_0, Set_first Node,
     If_null (Var Node) [Continue_outer], If_null (Arrow (Var Node)) [Continue_outer],
     While_true
       [LLock Excl (Var Node), Set Tmp (Var Node), Set Next (Arrow (Var Node)),
        If_null (Var Next) [LUnlock (Var Node), Break],
        LLock Excl (Var Next), Count_if Less (Var Node) (Var Next),
        Set Node (Arrow (Var Node)), LUnlock (Var Next), LUnlock (Var Tmp)],
     Incr_count]"

definition spn_find_equals :: "lstmt list" where
  "spn_find_equals = [Counter_0, Set_first Node,
     If_null (Var Node) [Continue_outer], If_null (Arrow (Var Node)) [Continue_outer],
     While_true
       [LLock Excl (Var Node), Set Tmp (Var Node), Set Next (Arrow (Var Node)),
        If_null (Var Next) [LUnlock (Var Node), Break],
        LLock Excl (Var Next), Count_if Same (Var Node) (Var Next),
        Set Node (Arrow (Var Node)), LUnlock (Var Next), LUnlock (Var Tmp)],
     Incr_count]"

definition spn_random_swap :: "lstmt list" where
  "spn_random_swap = [Set_first Prev, If_null (Var Prev) [Continue_outer], If_null (Arrow (Var Prev)) [Continue_outer],
     Set_index, Set Current (Arrow (Var Prev)), Set Future (Arrow (Arrow (Var Prev))), I_0,
     While_true
       [Break_unless_i_lt_index,
        LLock Excl (Var Prev), If_null (Arrow (Var Prev)) [LUnlock (Var Prev), Break],
        LLock Excl (Arrow (Var Prev)),
        If_null (Arrow (Arrow (Var Prev))) [LUnlock (Arrow (Var Prev)), LUnlock (Var Prev), Break],
        LLock Excl (Arrow (Arrow (Var Prev))),
        Set Node (Var Prev), Set Prev (Arrow (Var Prev)), Set Current (Arrow (Var Current)),
        Set Future (Arrow (Var Future)),
        LUnlock (Arrow (Arrow (Var Node))), LUnlock (Arrow (Var Node)), LUnlock (Var Node), I_inc],
     Incr_count]"

definition spn_monitor :: "lstmt list" where
  "spn_monitor = [Print_counts]"

text \<open>\<open>main\<close>: which thread runs what, and the start of all of them on the new list.\<close>

fun spn_bodies :: "num_thread \<Rightarrow> lstmt list" where
  "spn_bodies INCREASING = spn_find_increasing"
| "spn_bodies DECREASING = spn_find_decreasing"
| "spn_bodies EQUALS = spn_find_equals"
| "spn_bodies MONITOR = spn_monitor"
| "spn_bodies _ = spn_random_swap"

definition spn_storage_main :: "(nat \<Rightarrow> addr option) \<Rightarrow> (fault + lsys) option" where
  "spn_storage_main alloc = (case spn_init_storage alloc create_storage Map.empty of None \<Rightarrow> None
     | Some (Inl e) \<Rightarrow> Some (Inl e)
     | Some (Inr (s, h)) \<Rightarrow> (case print_storage s h of None \<Rightarrow> None
         | Some (Inl e) \<Rightarrow> Some (Inl e)
         | Some (Inr lines) \<Rightarrow> Some (Inr (storage_start spn_bodies s h))))"

lemma spn_shape: "storage_shape Excl Less spn_bodies"
  by (simp add: storage_shape_def finder_def finder_walk_def swapper_def swapper_walk_def spn_find_increasing_def
    spn_find_decreasing_def spn_find_equals_def spn_random_swap_def spn_monitor_def)

section \<open>rwlock.c\<close>

definition rw_SIZE_STORAGE :: nat where "rw_SIZE_STORAGE = 1000"

definition rw_init_storage :: "(nat \<Rightarrow> addr option) \<Rightarrow> storage_t \<Rightarrow> node_t heap \<Rightarrow>
    (fault + storage_t \<times> node_t heap) option" where
  "rw_init_storage alloc storage h =
     init_loop alloc (\<lambda>i. ''create new node '' @ digits (rw_SIZE_STORAGE - i + 1)) 1 rw_SIZE_STORAGE storage h"

definition rw_find_increasing :: "lstmt list" where
  "rw_find_increasing = [Counter_0, Set_first Node,
     If_null (Var Node) [Continue_outer], If_null (Arrow (Var Node)) [Continue_outer],
     While_true
       [LLock Shared (Var Node), Set Tmp (Var Node), Set Next (Arrow (Var Node)),
        If_null (Var Next) [LUnlock (Var Node), Break],
        LLock Shared (Var Next), Count_if Less (Var Node) (Var Next),
        Set Node (Arrow (Var Node)), LUnlock (Var Next), LUnlock (Var Tmp)],
     Incr_count]"

definition rw_find_decreasing :: "lstmt list" where
  "rw_find_decreasing = [Counter_0, Set_first Node,
     If_null (Var Node) [Continue_outer], If_null (Arrow (Var Node)) [Continue_outer],
     While_true
       [LLock Shared (Var Node), Set Tmp (Var Node), Set Next (Arrow (Var Node)),
        If_null (Var Next) [LUnlock (Var Node), Break],
        LLock Shared (Var Next), Count_if Greater (Var Node) (Var Next),
        Set Node (Arrow (Var Node)), LUnlock (Var Next), LUnlock (Var Tmp)],
     Incr_count]"

definition rw_find_equals :: "lstmt list" where
  "rw_find_equals = [Counter_0, Set_first Node,
     If_null (Var Node) [Continue_outer], If_null (Arrow (Var Node)) [Continue_outer],
     While_true
       [LLock Shared (Var Node), Set Tmp (Var Node), Set Next (Arrow (Var Node)),
        If_null (Var Next) [LUnlock (Var Node), Break],
        LLock Shared (Var Next), Count_if Same (Var Node) (Var Next),
        Set Node (Arrow (Var Node)), LUnlock (Var Next), LUnlock (Var Tmp)],
     Incr_count]"

definition rw_random_swap :: "lstmt list" where
  "rw_random_swap = [Set_first Prev, If_null (Var Prev) [Continue_outer], If_null (Arrow (Var Prev)) [Continue_outer],
     Set_index, Set Current (Arrow (Var Prev)), Set Future (Arrow (Arrow (Var Prev))), I_0,
     While_true
       [Break_unless_i_lt_index,
        LLock Excl (Var Prev), If_null (Arrow (Var Prev)) [LUnlock (Var Prev), Break],
        LLock Excl (Arrow (Var Prev)),
        If_null (Arrow (Arrow (Var Prev))) [LUnlock (Arrow (Var Prev)), LUnlock (Var Prev), Break],
        LLock Excl (Arrow (Arrow (Var Prev))),
        Set Node (Var Prev), Set Prev (Arrow (Var Prev)), Set Current (Arrow (Var Current)),
        Set Future (Arrow (Var Future)),
        LUnlock (Arrow (Arrow (Var Node))), LUnlock (Arrow (Var Node)), LUnlock (Var Node), I_inc],
     Incr_count]"

definition rw_monitor :: "lstmt list" where
  "rw_monitor = [Print_counts]"

text \<open>\<open>main\<close>: which thread runs what, and the start of all of them on the new list.\<close>

fun rw_bodies :: "num_thread \<Rightarrow> lstmt list" where
  "rw_bodies INCREASING = rw_find_increasing"
| "rw_bodies DECREASING = rw_find_decreasing"
| "rw_bodies EQUALS = rw_find_equals"
| "rw_bodies MONITOR = rw_monitor"
| "rw_bodies _ = rw_random_swap"

definition rw_storage_main :: "(nat \<Rightarrow> addr option) \<Rightarrow> (fault + lsys) option" where
  "rw_storage_main alloc = (case rw_init_storage alloc create_storage Map.empty of None \<Rightarrow> None
     | Some (Inl e) \<Rightarrow> Some (Inl e)
     | Some (Inr (s, h)) \<Rightarrow> (case print_storage s h of None \<Rightarrow> None
         | Some (Inl e) \<Rightarrow> Some (Inl e)
         | Some (Inr lines) \<Rightarrow> Some (Inr (storage_start rw_bodies s h))))"

lemma rw_shape: "storage_shape Shared Greater rw_bodies"
  by (simp add: storage_shape_def finder_def finder_walk_def swapper_def swapper_walk_def rw_find_increasing_def
    rw_find_decreasing_def rw_find_equals_def rw_random_swap_def rw_monitor_def)

section \<open>The programs are correct\<close>



text \<open>The words \<open>spinlock.c\<close> and \<open>rwlock.c\<close> put into their 1000 nodes, and the list they build.\<close>

abbreviation built_list :: "(nat \<Rightarrow> addr) \<Rightarrow> (addr \<times> string) list" where
  "built_list alloc \<equiv> map (\<lambda>j. (alloc (Suc j), ''create new node '' @ digits (1000 - Suc j + 1))) [0..<1000]"

lemma words_built:
  assumes "inj alloc"
  shows "\<exists>s h. init_loop (\<lambda>i. Some (alloc i)) (\<lambda>i. ''create new node '' @ digits (1000 - i + 1)) 1 1000 create_storage Map.empty = Some (Inr (s, h)) \<and>
    slist h (first_n s) (built_list alloc) \<and> distinct (map fst (built_list alloc))"
  by (rule init_storage_ok [OF assms create_new_node_length])

lemma spn_storage_ok:
  assumes "inj alloc"
  shows "\<exists>s0. spn_storage_main (\<lambda>i. Some (alloc i)) = Some (Inr s0) \<and> (\<forall>s. lreach s0 s \<longrightarrow> storage_good (built_list alloc) Less s)"
proof -
  from words_built [OF assms] obtain s h where i: "spn_storage_main (\<lambda>i. Some (alloc i)) = Some (Inr (storage_start spn_bodies s h))"
    "slist h (first_n s) (built_list alloc)" "distinct (map fst (built_list alloc))"
    by (auto simp: print_storage_slist spn_storage_main_def spn_init_storage_def spn_SIZE_STORAGE_def)
  with storage_correct [OF spn_shape i(2,3)] show ?thesis by blast
qed

lemma rw_storage_ok:
  assumes "inj alloc"
  shows "\<exists>s0. rw_storage_main (\<lambda>i. Some (alloc i)) = Some (Inr s0) \<and> (\<forall>s. lreach s0 s \<longrightarrow> storage_good (built_list alloc) Greater s)"
proof -
  from words_built [OF assms] obtain s h where i: "rw_storage_main (\<lambda>i. Some (alloc i)) = Some (Inr (storage_start rw_bodies s h))"
    "slist h (first_n s) (built_list alloc)" "distinct (map fst (built_list alloc))"
    by (auto simp: print_storage_slist rw_storage_main_def rw_init_storage_def rw_SIZE_STORAGE_def)
  with storage_correct [OF rw_shape i(2,3)] show ?thesis by blast
qed

text \<open>
  C15. \<open>spinlock.c\<close> and \<open>rwlock.c\<close>: the same for the lists of 1000 nodes with a spin lock or a read-write lock in each. With the read-write lock the
  comparing threads share a lock, a swapping thread holds it alone, and \<open>find_decreasing\<close> counts the pairs that decrease.
\<close>

theorem spn_rw_storage_correct:
  assumes "inj alloc"
  shows "(\<exists>s0. spn_storage_main (\<lambda>i. Some (alloc i)) = Some (Inr s0) \<and> (\<forall>s. lreach s0 s \<longrightarrow> storage_good (built_list alloc) Less s)) \<and>
    (\<exists>s0. rw_storage_main (\<lambda>i. Some (alloc i)) = Some (Inr s0) \<and> (\<forall>s. lreach s0 s \<longrightarrow> storage_good (built_list alloc) Greater s))"
  using spn_storage_ok [OF assms] rw_storage_ok [OF assms] by blast

theorem spn_rw_storage_correct_witness:
  "(\<exists>s0. spn_storage_main (\<lambda>i. Some (2 * i)) = Some (Inr s0) \<and> storage_good (built_list (\<lambda>i. 2 * i)) Less s0) \<and>
    (\<exists>s0. rw_storage_main (\<lambda>i. Some (2 * i)) = Some (Inr s0) \<and> storage_good (built_list (\<lambda>i. 2 * i)) Greater s0)"
proof -
  have "inj (\<lambda>i :: nat. 2 * i)" by (simp add: inj_def)
  from spn_rw_storage_correct [OF this] lreach_refl show ?thesis by blast
qed

section \<open>Swapping and the random index\<close>

lemma swap_slist:
  assumes "slist h p (ys @ (a, u) # (b, v) # (c, w) # zs)"
    and "distinct (map fst (ys @ (a, u) # (b, v) # (c, w) # zs))"
  shows "\<exists>n. h a = Some \<lparr>nvalue = u, next_n = Some b\<rparr> \<and> h b = Some \<lparr>nvalue = v, next_n = Some c\<rparr> \<and>
    h c = Some \<lparr>nvalue = w, next_n = n\<rparr> \<and>
    slist (h(a \<mapsto> \<lparr>nvalue = u, next_n = Some c\<rparr>, c \<mapsto> \<lparr>nvalue = w, next_n = Some b\<rparr>,
      b \<mapsto> \<lparr>nvalue = v, next_n = n\<rparr>)) p (ys @ (a, u) # (c, w) # (b, v) # zs)"
  using assms by (induction ys arbitrary: p) auto

text \<open>
  \<open>swap_nodes\<close> exchanges two neighbours and touches no value: the list with \<open>cur\<close> and \<open>future\<close> in
  this order behind \<open>prev\<close> has them in the other order afterwards, the rest unchanged. (No thread
  calls it: \<open>random_swap\<close> only walks.)
\<close>

theorem swap_nodes_swaps:
  assumes "slist h p (ys @ (a, u) # (b, v) # (c, w) # zs)"
    and "distinct (map fst (ys @ (a, u) # (b, v) # (c, w) # zs))"
  shows "\<exists>h'. swap_nodes (Some a) (Some b) (Some c) h = Inr h' \<and>
    slist h' p (ys @ (a, u) # (c, w) # (b, v) # zs) \<and> dom h' = dom h"
proof -
  have d: "a \<noteq> b" "b \<noteq> a" "a \<noteq> c" "c \<noteq> a" "b \<noteq> c" "c \<noteq> b" using assms(2) by auto
  obtain n where n: "h a = Some \<lparr>nvalue = u, next_n = Some b\<rparr>" "h b = Some \<lparr>nvalue = v, next_n = Some c\<rparr>"
    "h c = Some \<lparr>nvalue = w, next_n = n\<rparr>"
    "slist (h(a \<mapsto> \<lparr>nvalue = u, next_n = Some c\<rparr>, c \<mapsto> \<lparr>nvalue = w, next_n = Some b\<rparr>,
      b \<mapsto> \<lparr>nvalue = v, next_n = n\<rparr>)) p (ys @ (a, u) # (c, w) # (b, v) # zs)"
    using swap_slist [OF assms] by blast
  then show ?thesis using d by (auto simp: swap_nodes_def)
qed

theorem swap_nodes_swaps_witness:
  "\<exists>h'. swap_nodes (Some 1) (Some 2) (Some 3)
     [1 \<mapsto> \<lparr>nvalue = ''p'', next_n = Some 2\<rparr>, 2 \<mapsto> \<lparr>nvalue = ''q'', next_n = Some 3\<rparr>,
      3 \<mapsto> \<lparr>nvalue = ''r'', next_n = None\<rparr>] = Inr h' \<and> slist h' (Some 1) [(1, ''p''), (3, ''r''), (2, ''q'')]"
proof -
  let ?h = "[1 \<mapsto> \<lparr>nvalue = ''p'', next_n = Some 2\<rparr>, 2 \<mapsto> \<lparr>nvalue = ''q'', next_n = Some 3\<rparr>,
      3 \<mapsto> \<lparr>nvalue = ''r'', next_n = None\<rparr>] :: node_t heap"
  have "slist ?h (Some 1) ([] @ (1, ''p'') # (2, ''q'') # (3, ''r'') # [])" by simp
  from swap_nodes_swaps [OF this] show ?thesis by auto
qed

text \<open>
  \<open>number_random_node\<close> returns as soon as the random numbers offer an index that is large enough, and
  the index is at least \<open>MIN_SIZE_LIST\<close> and less than the size of the list minus two.
\<close>

theorem number_random_node_range:
  assumes "2 < n" and "3 \<le> rand_r (k + j) mod (n - 2)"
  shows "\<exists>r. number_random_node n rand_r k = Some r \<and> 3 \<le> r \<and> r < n - 2"
  using assms(2)
proof (induction j arbitrary: k)
  case 0
  then show ?case using assms(1) by (simp add: number_random_node.simps [of n rand_r k] MIN_SIZE_LIST_def Let_def)
next
  case (Suc j)
  show ?case
  proof (cases "3 \<le> rand_r k mod (n - 2)")
    case True
    then show ?thesis using assms(1) by (simp add: number_random_node.simps [of n rand_r k] MIN_SIZE_LIST_def Let_def)
  next
    case False
    with Suc.IH [of "Suc k"] Suc.prems show ?thesis
      by (simp add: number_random_node.simps [of n rand_r k] MIN_SIZE_LIST_def Let_def)
  qed
qed

theorem number_random_node_range_witness:
  "\<exists>r. number_random_node 100 (\<lambda>k. [0, 98, 100, 5, 7] ! k) 0 = Some r \<and> 3 \<le> r \<and> r < 100 - 2"
  using number_random_node_range [of 100 "\<lambda>k. [0, 98, 100, 5, 7] ! k" 0 3] by simp

end
