(* ===== verification/Cache.thy ===== *)
theory Cache
  imports Prelude
begin

unbundle bit_operations_syntax

text \<open>
  The response cache of the HTTP proxy, \<open>semestr2/Task3/header/cache_list.h\<close>: a singly linked list of
  records, searched by a 64-bit hash of the request text. The first node is allocated by
  \<open>init_cache\<close> of \<open>proxy.c\<close> and never filled. A C string is the list of its bytes, \<open>char\<close> is signed as on the
  platform of the program; a response buffer is a function from positions to bytes together with its
  fixed size. All operations run under \<open>cache_mutex\<close>, so one at a time.
\<close>

section \<open>Data\<close>

definition CACHE_BUFFER_SIZE :: nat where "CACHE_BUFFER_SIZE = 1024 * 1024 * 64"

text \<open>The field \<open>response\<close>: an allocated buffer, \<open>NULL\<close>, or a pointer that was never written.\<close>

datatype resp = Buffer "nat \<Rightarrow> c_char" | Null | Garbage

record cache_t =
  request :: c_ulong
  response :: resp
  response_len :: c_long
  cnext :: ptr

section \<open>Operations\<close>

text \<open>\<open>hash\<close>: the conversion of a negative \<open>char\<close> to \<open>unsigned long\<close> extends its sign.\<close>

fun hash_loop :: "c_ulong \<Rightarrow> c_char list \<Rightarrow> c_ulong" where
  "hash_loop h [] = h"
| "hash_loop h (c # s) = (if c = 0 then h else hash_loop ((push_bit 5 h + h) + scast c) s)"

definition hash :: "c_char list \<Rightarrow> c_ulong" where
  "hash str = hash_loop 0 str"

text \<open>\<open>init_cache_record\<close>: the status (0 is \<open>EXIT_SUCCESS\<close>) and the record.\<close>

definition init_cache_record :: "bool \<Rightarrow> cache_t \<Rightarrow> c_int \<times> cache_t" where
  "init_cache_record calloc_ok record =
     (if \<not> calloc_ok then (1, record\<lparr>response := Null\<rparr>)
      else (0, record\<lparr>response := Buffer (\<lambda>i. 0), cnext := None\<rparr>))"

text \<open>\<open>strncpy\<close> into a buffer of zeros: it stops copying at a null byte and fills up with null bytes.\<close>

definition strncpy0 :: "(nat \<Rightarrow> c_char) \<Rightarrow> nat \<Rightarrow> nat \<Rightarrow> c_char" where
  "strncpy0 src n i = (if i < n \<and> (\<forall>j < i. src j \<noteq> 0) then src i else 0)"

text \<open>
  The loop of \<open>find_in_cache\<close>: the length found and the copy, or nothing (\<open>-1\<close> in the source). The
  outer \<open>None\<close>: the loop does not end.
\<close>

partial_function (option) find_loop :: "cache_t heap \<Rightarrow> c_ulong \<Rightarrow> ptr \<Rightarrow>
    (fault + (c_long \<times> (nat \<Rightarrow> c_char)) option) option" where
  "find_loop h req_hash cur = (case cur of None \<Rightarrow> Some (Inr None)
     | Some a \<Rightarrow> (case load h cur of Inl e \<Rightarrow> Some (Inl e)
        | Inr r \<Rightarrow> if request r = req_hash
            then (case response r of
                Buffer b \<Rightarrow> if unat (response_len r) \<le> CACHE_BUFFER_SIZE
                  then Some (Inr (Some (response_len r, strncpy0 b (unat (response_len r)))))
                  else Some (Inl OutOfBounds)
              | Null \<Rightarrow> Some (Inl NullDeref) | Garbage \<Rightarrow> Some (Inl Uninitialised))
            else find_loop h req_hash (cnext r)))"

definition find_in_cache :: "cache_t heap \<Rightarrow> ptr \<Rightarrow> c_char list \<Rightarrow>
    (fault + (c_long \<times> (nat \<Rightarrow> c_char)) option) option" where
  "find_in_cache h start req = find_loop h (hash req) start"

definition add_request :: "cache_t \<Rightarrow> c_char list \<Rightarrow> cache_t" where
  "add_request record req = record\<lparr>request := hash req\<rparr>"

text \<open>\<open>add_response\<close>: \<open>memcpy\<close> to a position of the buffer; nothing in the source checks that it fits.\<close>

definition add_response :: "cache_t \<Rightarrow> c_char list \<Rightarrow> nat \<Rightarrow> fault + cache_t" where
  "add_response record resp cur_position = (case response record of
     Buffer b \<Rightarrow> if cur_position + length resp \<le> CACHE_BUFFER_SIZE
       then Inr (record\<lparr>response := Buffer (\<lambda>i.
         if cur_position \<le> i \<and> i < cur_position + length resp then resp ! (i - cur_position) else b i)\<rparr>)
       else Inl OutOfBounds
   | Null \<Rightarrow> Inl NullDeref | Garbage \<Rightarrow> Inl Uninitialised)"

definition add_size :: "cache_t \<Rightarrow> c_long \<Rightarrow> cache_t" where
  "add_size record sz = record\<lparr>response_len := sz\<rparr>"

text \<open>\<open>delete_cache_record\<close>: frees the buffer; \<open>free(NULL)\<close> is allowed.\<close>

definition delete_cache_record :: "cache_t \<Rightarrow> fault + cache_t" where
  "delete_cache_record record = (case response record of
     Buffer b \<Rightarrow> Inr (record\<lparr>response := Garbage\<rparr>) | Null \<Rightarrow> Inr record | Garbage \<Rightarrow> Inl BadFree)"

text \<open>
  The loop of \<open>push_record\<close>, from the node \<open>cur\<close> (never \<open>NULL\<close> at its head): the last node, or
  nothing when a duplicate was met.
\<close>

partial_function (option) push_loop :: "cache_t heap \<Rightarrow> c_ulong \<Rightarrow> ptr \<Rightarrow> (fault + addr option) option" where
  "push_loop h req cur = (case load h cur of Inl e \<Rightarrow> Some (Inl e)
     | Inr c \<Rightarrow> (case cnext c of None \<Rightarrow> Some (Inr (Some (the cur)))
        | Some a \<Rightarrow> (case load h (Some a) of Inl e \<Rightarrow> Some (Inl e)
           | Inr r \<Rightarrow> if request r = req then Some (Inr None) else push_loop h req (Some a))))"

text \<open>\<open>push_record\<close> of the record at address \<open>rec\<close>.\<close>

definition push_record :: "cache_t heap \<Rightarrow> ptr \<Rightarrow> addr \<Rightarrow> (fault + cache_t heap) option" where
  "push_record h start rec = (case load h (Some rec) of Inl e \<Rightarrow> Some (Inl e)
     | Inr r \<Rightarrow> (case push_loop h (request r) start of None \<Rightarrow> None
        | Some (Inl e) \<Rightarrow> Some (Inl e)
        | Some (Inr None) \<Rightarrow> (case delete_cache_record r of Inl e \<Rightarrow> Some (Inl e)
            | Inr r' \<Rightarrow> Some (free_cell (h(rec \<mapsto> r')) (Some rec)))
        | Some (Inr (Some b)) \<Rightarrow> Some (store h (Some b) (\<lambda>c. c\<lparr>cnext := Some rec\<rparr>))))"

text \<open>\<open>init_cache\<close> of \<open>proxy.c\<close>: the head node at \<open>a\<close>; all its fields but \<open>next\<close> keep what \<open>malloc\<close> left in memory.\<close>

definition init_cache :: "(addr \<times> cache_t) option \<Rightarrow> cache_t heap \<Rightarrow> c_int \<times> ptr \<times> cache_t heap" where
  "init_cache malloc h = (case malloc of None \<Rightarrow> (1, None, h)
     | Some (a, junk) \<Rightarrow> (0, Some a, h(a \<mapsto> junk\<lparr>response := Garbage, cnext := None\<rparr>)))"

text \<open>The loop of \<open>destroy_cache\<close>.\<close>

partial_function (option) destroy_cache :: "cache_t heap \<Rightarrow> ptr \<Rightarrow> (fault + cache_t heap) option" where
  "destroy_cache h cur = (case cur of None \<Rightarrow> Some (Inr h)
     | Some a \<Rightarrow> (case load h cur of Inl e \<Rightarrow> Some (Inl e)
        | Inr r \<Rightarrow> (case delete_cache_record r of Inl e \<Rightarrow> Some (Inl e)
           | Inr r' \<Rightarrow> (case free_cell (h(a \<mapsto> r')) cur of Inl e \<Rightarrow> Some (Inl e)
              | Inr h' \<Rightarrow> destroy_cache h' (cnext r')))))"

section \<open>What the list represents\<close>

text \<open>\<open>clist h p rs\<close>: from \<open>p\<close> the heap has the records \<open>rs\<close>, each with its address.\<close>

fun clist :: "cache_t heap \<Rightarrow> ptr \<Rightarrow> (addr \<times> c_ulong \<times> (nat \<Rightarrow> c_char) \<times> c_long) list \<Rightarrow> bool" where
  "clist h p [] \<longleftrightarrow> p = None"
| "clist h p ((a, q, b, n) # rs) \<longleftrightarrow> p = Some a \<and> unat n \<le> CACHE_BUFFER_SIZE \<and>
     (\<exists>nx. h a = Some \<lparr>request = q, response = Buffer b, response_len = n, cnext = nx\<rparr> \<and> clist h nx rs)"

text \<open>The whole cache: the unused head and behind it records with different hashes.\<close>

definition cache_ok :: "cache_t heap \<Rightarrow> ptr \<Rightarrow> addr \<Rightarrow> c_ulong \<Rightarrow>
    (addr \<times> c_ulong \<times> (nat \<Rightarrow> c_char) \<times> c_long) list \<Rightarrow> bool" where
  "cache_ok h start hd0 junk rs \<longleftrightarrow> start = Some hd0 \<and>
     (\<exists>c. h hd0 = Some c \<and> request c = junk \<and> response c = Garbage \<and> clist h (cnext c) rs) \<and>
     distinct (hd0 # map fst rs) \<and> distinct (map (fst \<circ> snd) rs)"

text \<open>The abstract cache: a finite map from hashes to the stored response.\<close>

definition cache_abs :: "(addr \<times> c_ulong \<times> (nat \<Rightarrow> c_char) \<times> c_long) list \<Rightarrow> c_ulong \<rightharpoonup> (nat \<Rightarrow> c_char) \<times> c_long" where
  "cache_abs rs = map_of (map snd rs)"

lemma clist_upd [simp]: "a \<notin> fst ` set rs \<Longrightarrow> clist (h(a := c)) p rs \<longleftrightarrow> clist h p rs"
  by (induction h p rs rule: clist.induct) auto

lemma find_loop_clist:
  "clist h p rs \<Longrightarrow> find_loop h k p = Some (Inr (map_option (\<lambda>(b, n). (n, strncpy0 b (unat n))) (cache_abs rs k)))"
proof (induction h p rs rule: clist.induct)
  case (1 h p)
  then show ?case by (simp add: find_loop.simps cache_abs_def)
next
  case (2 h p a q b n rs)
  then obtain nx where nx: "p = Some a" "unat n \<le> CACHE_BUFFER_SIZE"
    "h a = Some \<lparr>request = q, response = Buffer b, response_len = n, cnext = nx\<rparr>" "clist h nx rs" by auto
  then show ?case using 2(1) [of nx] by (simp add: find_loop.simps [of h k "Some a"] cache_abs_def)
qed

lemma push_loop_clist:
  assumes "clist h (cnext c) rs" and "h a = Some c"
  shows "push_loop h k (Some a) = Some (Inr (if k \<in> (fst \<circ> snd) ` set rs then None
     else Some (last (a # map fst rs))))"
  using assms
proof (induction rs arbitrary: a c)
  case Nil
  then show ?case by (simp add: push_loop.simps [of h k "Some a"])
next
  case (Cons r rs)
  obtain b q bf n where r: "r = (b, q, bf, n)" by (metis surj_pair)
  with Cons.prems obtain nx where nx: "cnext c = Some b"
    "h b = Some \<lparr>request = q, response = Buffer bf, response_len = n, cnext = nx\<rparr>" "clist h nx rs" by auto
  with Cons.IH [of "\<lparr>request = q, response = Buffer bf, response_len = n, cnext = nx\<rparr>" b] Cons.prems(2) r
  show ?case by (auto simp: push_loop.simps [of h k "Some a"])
qed

lemma cache_abs_dom: "dom (cache_abs rs) = (fst \<circ> snd) ` set rs"
  by (simp add: cache_abs_def dom_map_of_conv_image_fst image_comp)

lemma clist_append:
  assumes "clist h (cnext c) rs" and "h a = Some c" and "distinct (a # map fst rs)" and "rec \<notin> fst ` set rs" and "rec \<noteq> a"
    and "h rec = Some \<lparr>request = q, response = Buffer b, response_len = n, cnext = None\<rparr>" and "unat n \<le> CACHE_BUFFER_SIZE"
  shows "\<exists>d. h (last (a # map fst rs)) = Some d \<and>
    (\<exists>c'. (h(last (a # map fst rs) \<mapsto> d\<lparr>cnext := Some rec\<rparr>)) a = Some c' \<and> request c' = request c \<and> response c' = response c \<and>
      clist (h(last (a # map fst rs) \<mapsto> d\<lparr>cnext := Some rec\<rparr>)) (cnext c') (rs @ [(rec, q, b, n)]))"
  using assms
proof (induction rs arbitrary: a c)
  case Nil
  then show ?case by auto
next
  case (Cons r rs)
  obtain e q' bf n' where r: "r = (e, q', bf, n')" by (metis surj_pair)
  with Cons.prems obtain nx where nx: "cnext c = Some e" "unat n' \<le> CACHE_BUFFER_SIZE"
    "h e = Some \<lparr>request = q', response = Buffer bf, response_len = n', cnext = nx\<rparr>" "clist h nx rs" by auto
  let ?l = "last (e # map fst rs)"
  let ?r = "\<lparr>request = q', response = Buffer bf, response_len = n', cnext = nx\<rparr>"
  have "\<exists>d. h ?l = Some d \<and>
    (\<exists>c'. (h(?l \<mapsto> d\<lparr>cnext := Some rec\<rparr>)) e = Some c' \<and> request c' = request ?r \<and> response c' = response ?r \<and>
      clist (h(?l \<mapsto> d\<lparr>cnext := Some rec\<rparr>)) (cnext c') (rs @ [(rec, q, b, n)]))"
    by (rule Cons.IH) (use Cons.prems r nx in simp_all)
  then obtain d c' where
    d: "h ?l = Some d" "(h(?l \<mapsto> d\<lparr>cnext := Some rec\<rparr>)) e = Some c'" "request c' = q'" "response c' = Buffer bf"
      "clist (h(?l \<mapsto> d\<lparr>cnext := Some rec\<rparr>)) (cnext c') (rs @ [(rec, q, b, n)])" by fastforce
  have "?l \<in> set (e # map fst rs)" by (rule last_in_set) simp
  moreover have "a \<notin> set (e # map fst rs)" using Cons.prems(3) r by simp
  ultimately have "?l \<noteq> a" by metis
  moreover define h' where "h' = h(?l \<mapsto> d\<lparr>cnext := Some rec\<rparr>)"
  ultimately have h': "h' e = Some c'" "h' a = Some c" "clist h' (cnext c') (rs @ [(rec, q, b, n)])"
    using d Cons.prems(2) by simp_all
  have "response_len c' = n'" using d(1,2) nx(3) by (auto split: if_splits)
  with d(3,4) have c': "c' = \<lparr>request = q', response = Buffer bf, response_len = n', cnext = cnext c'\<rparr>" by simp
  have "h' e = Some \<lparr>request = q', response = Buffer bf, response_len = n', cnext = cnext c'\<rparr>"
    using h'(1) c' by simp
  with h'(3) nx(1,2) r have "clist h' (cnext c) ((r # rs) @ [(rec, q, b, n)])" by auto
  moreover have "last (a # map fst (r # rs)) = ?l" using r by simp
  ultimately show ?case using d(1) h'(2) unfolding h'_def by metis
qed

text \<open>\<open>push_record\<close> frees a record whose hash is there already, and hangs any other one behind the last node.\<close>

lemma push_record_cases:
  assumes ok: "cache_ok h start hd0 junk rs" and rec: "h rec = Some \<lparr>request = q, response = Buffer b, response_len = n, cnext = None\<rparr>"
    and n: "unat n \<le> CACHE_BUFFER_SIZE" and fresh: "rec \<noteq> hd0" "rec \<notin> fst ` set rs"
  obtains "q \<in> dom (cache_abs rs)" and "push_record h start rec = Some (Inr (h(rec := None)))"
      and "cache_ok (h(rec := None)) start hd0 junk rs"
    | l d where "q \<notin> dom (cache_abs rs)" and "l \<in> set (hd0 # map fst rs)" and "h l = Some d"
      and "push_record h start rec = Some (Inr (h(l \<mapsto> d\<lparr>cnext := Some rec\<rparr>)))"
      and "cache_ok (h(l \<mapsto> d\<lparr>cnext := Some rec\<rparr>)) start hd0 junk (rs @ [(rec, q, b, n)])"
      and "cache_abs (rs @ [(rec, q, b, n)]) = (cache_abs rs)(q \<mapsto> (b, n))"
proof -
  from ok obtain c where c: "start = Some hd0" "h hd0 = Some c" "request c = junk" "response c = Garbage" "clist h (cnext c) rs"
    "distinct (hd0 # map fst rs)" "distinct (map (fst \<circ> snd) rs)" by (auto simp: cache_ok_def)
  note loop = push_loop_clist [OF c(5,2), of q]
  show ?thesis
  proof (cases "q \<in> dom (cache_abs rs)")
    case True
    moreover from True have "push_record h start rec = Some (Inr (h(rec := None)))"
      using loop c(1) rec by (simp add: push_record_def delete_cache_record_def cache_abs_dom free_cell_def)
    moreover have "cache_ok (h(rec := None)) start hd0 junk rs"
      using c fresh by (auto simp: cache_ok_def)
    ultimately show ?thesis by (rule that(1))
  next
    case False
    let ?l = "last (hd0 # map fst rs)"
    from clist_append [OF c(5,2,6) fresh(2,1) rec n] obtain d c' where
      d: "h ?l = Some d" "(h(?l \<mapsto> d\<lparr>cnext := Some rec\<rparr>)) hd0 = Some c'" "request c' = junk" "response c' = Garbage"
        "clist (h(?l \<mapsto> d\<lparr>cnext := Some rec\<rparr>)) (cnext c') (rs @ [(rec, q, b, n)])" using c(3,4) by auto
    have "?l \<in> set (hd0 # map fst rs)" by (rule last_in_set) simp
    moreover have "push_record h start rec = Some (Inr (h(?l \<mapsto> d\<lparr>cnext := Some rec\<rparr>)))"
      using loop c(1) rec False d(1) by (simp add: push_record_def cache_abs_dom)
    moreover have "cache_ok (h(?l \<mapsto> d\<lparr>cnext := Some rec\<rparr>)) start hd0 junk (rs @ [(rec, q, b, n)])"
      unfolding cache_ok_def using c d(2-5) fresh False by (auto simp: cache_abs_dom)
    moreover have "cache_abs (rs @ [(rec, q, b, n)]) = (cache_abs rs)(q \<mapsto> (b, n))"
    proof -
      have "map_of (map snd rs) q = None" using False unfolding cache_abs_def domIff by blast
      then show ?thesis by (auto simp: cache_abs_def fun_eq_iff map_add_def split: option.splits)
    qed
    ultimately show ?thesis using that(2) False d(1) by blast
  qed
qed

lemma push_record_ok:
  assumes "cache_ok h start hd0 junk rs" and "h rec = Some \<lparr>request = q, response = Buffer b, response_len = n, cnext = None\<rparr>"
    and "unat n \<le> CACHE_BUFFER_SIZE" and "rec \<noteq> hd0" and "rec \<notin> fst ` set rs"
  shows "\<exists>h' rs'. push_record h start rec = Some (Inr h') \<and> cache_ok h' start hd0 junk rs' \<and>
    cache_abs rs' = (if q \<in> dom (cache_abs rs) then cache_abs rs else (cache_abs rs)(q \<mapsto> (b, n))) \<and>
    (rec \<in> dom h' \<longleftrightarrow> q \<notin> dom (cache_abs rs)) \<and> dom h' \<subseteq> dom h"
proof (cases rule: push_record_cases [OF assms])
  case 1
  then show ?thesis by auto
next
  case (2 l d)
  then show ?thesis using assms(2) by auto
qed

section \<open>The contract\<close>

text \<open>
  What the proxy relies on: a lookup answers from the abstract map, an insertion adds a key that is
  new and leaves the map alone when it is not (the first response stored wins).
\<close>

locale response_cache =
  fixes repr :: "'h \<Rightarrow> ('k \<rightharpoonup> 'v) \<Rightarrow> bool"
    and find :: "'h \<Rightarrow> 'k \<Rightarrow> 'r option option"
    and put :: "'h \<Rightarrow> 'x \<Rightarrow> 'k \<Rightarrow> 'v \<Rightarrow> 'h option"
    and fits :: "'h \<Rightarrow> 'x \<Rightarrow> 'k \<Rightarrow> 'v \<Rightarrow> bool"
    and valid :: "'k \<Rightarrow> bool"
    and view :: "'v \<Rightarrow> 'r"
  assumes find_repr: "repr h m \<Longrightarrow> valid k \<Longrightarrow> find h k = Some (map_option view (m k))"
    and put_repr: "repr h m \<Longrightarrow> fits h x k v \<Longrightarrow>
      \<exists>h'. put h x k v = Some h' \<and> repr h' (if k \<in> dom m then m else m(k \<mapsto> v))"
begin

lemma find_put:
  assumes "repr h m" and "fits h x k v" and "valid k'"
  shows "\<exists>h'. put h x k v = Some h' \<and> find h' k' =
    (if k' = k \<and> m k = None then Some (Some (view v)) else find h k')"
proof -
  from put_repr [OF assms(1,2)] obtain h' where h': "put h x k v = Some h'"
    "repr h' (if k \<in> dom m then m else m(k \<mapsto> v))" by blast
  from find_repr [OF h'(2) assms(3)] find_repr [OF assms(1,3)] h'(1) show ?thesis by auto
qed

end

text \<open>The cache of the proxy provides it; the search compares with the unused head too, so the hash must not be the value that lies there.\<close>

definition cache_repr :: "ptr \<Rightarrow> addr \<Rightarrow> c_ulong \<Rightarrow> cache_t heap \<Rightarrow> (c_ulong \<rightharpoonup> (nat \<Rightarrow> c_char) \<times> c_long) \<Rightarrow> bool" where
  "cache_repr start hd0 junk h m \<longleftrightarrow> (\<exists>rs. cache_ok h start hd0 junk rs \<and> m = cache_abs rs)"

definition cache_find :: "ptr \<Rightarrow> cache_t heap \<Rightarrow> c_ulong \<Rightarrow> (c_long \<times> (nat \<Rightarrow> c_char)) option option" where
  "cache_find start h k = (case find_loop h k start of Some (Inr r) \<Rightarrow> Some r | _ \<Rightarrow> None)"

definition cache_put :: "ptr \<Rightarrow> cache_t heap \<Rightarrow> addr \<Rightarrow> c_ulong \<Rightarrow> (nat \<Rightarrow> c_char) \<times> c_long \<Rightarrow> cache_t heap option" where
  "cache_put start h rec k v = (case push_record
       (h(rec \<mapsto> \<lparr>request = k, response = Buffer (fst v), response_len = snd v, cnext = None\<rparr>)) start rec of
     Some (Inr h') \<Rightarrow> Some h' | _ \<Rightarrow> None)"

definition cache_fits :: "cache_t heap \<Rightarrow> addr \<Rightarrow> c_ulong \<Rightarrow> (nat \<Rightarrow> c_char) \<times> c_long \<Rightarrow> bool" where
  "cache_fits h rec k v \<longleftrightarrow> rec \<notin> dom h \<and> unat (snd v) \<le> CACHE_BUFFER_SIZE"

definition cache_view :: "(nat \<Rightarrow> c_char) \<times> c_long \<Rightarrow> c_long \<times> (nat \<Rightarrow> c_char)" where
  "cache_view = (\<lambda>(b, n). (n, strncpy0 b (unat n)))"

lemma clist_dom: "clist h p rs \<Longrightarrow> fst ` set rs \<subseteq> dom h"
  by (induction h p rs rule: clist.induct) auto

lemma find_loop_ok:
  assumes "cache_ok h start hd0 junk rs" and "k \<noteq> junk"
  shows "find_loop h k start = Some (Inr (map_option cache_view (cache_abs rs k)))"
proof -
  from assms obtain c where "start = Some hd0" "h hd0 = Some c" "request c = junk" "clist h (cnext c) rs"
    by (auto simp: cache_ok_def)
  with assms(2) find_loop_clist [of h "cnext c" rs k] show ?thesis
    by (simp add: find_loop.simps [of h k "Some hd0"] cache_view_def)
qed

lemma push_record_fresh:
  assumes ok: "cache_ok h start hd0 junk rs" and rec: "rec \<notin> dom h" and n: "unat n \<le> CACHE_BUFFER_SIZE"
  shows "\<exists>h' rs'. push_record (h(rec \<mapsto> \<lparr>request = q, response = Buffer b, response_len = n, cnext = None\<rparr>)) start rec = Some (Inr h') \<and>
    cache_ok h' start hd0 junk rs' \<and>
    cache_abs rs' = (if q \<in> dom (cache_abs rs) then cache_abs rs else (cache_abs rs)(q \<mapsto> (b, n))) \<and>
    (rec \<in> dom h' \<longleftrightarrow> q \<notin> dom (cache_abs rs)) \<and> dom h' \<subseteq> insert rec (dom h)"
proof -
  let ?h = "h(rec \<mapsto> \<lparr>request = q, response = Buffer b, response_len = n, cnext = None\<rparr>)"
  from ok obtain c where c: "start = Some hd0" "h hd0 = Some c" "request c = junk" "response c = Garbage" "clist h (cnext c) rs"
    "distinct (hd0 # map fst rs)" "distinct (map (fst \<circ> snd) rs)" by (auto simp: cache_ok_def)
  from c(2) rec have 1: "rec \<noteq> hd0" by auto
  from clist_dom [OF c(5)] rec have 2: "rec \<notin> fst ` set rs" by auto
  from c 1 2 have "cache_ok ?h start hd0 junk rs" by (auto simp: cache_ok_def)
  from push_record_ok [OF this _ n 1 2, of q b] show ?thesis by simp
qed

interpretation proxy_cache: response_cache "cache_repr start hd0 junk" "cache_find start" "cache_put start" cache_fits
    "\<lambda>k. k \<noteq> junk" cache_view for start hd0 junk
proof
  show "cache_find start h k = Some (map_option cache_view (m k))" if "cache_repr start hd0 junk h m" "k \<noteq> junk" for h m k
    using that find_loop_ok by (auto simp: cache_repr_def cache_find_def)
  show "\<exists>h'. cache_put start h x k v = Some h' \<and> cache_repr start hd0 junk h' (if k \<in> dom m then m else m(k \<mapsto> v))"
    if r: "cache_repr start hd0 junk h m" and f: "cache_fits h x k v" for h m x k v
  proof -
    from r obtain rs where rs: "cache_ok h start hd0 junk rs" "m = cache_abs rs" by (auto simp: cache_repr_def)
    from f have "x \<notin> dom h" "unat (snd v) \<le> CACHE_BUFFER_SIZE" by (auto simp: cache_fits_def)
    from push_record_fresh [OF rs(1) this, of k "fst v"] obtain h' rs' where
      "push_record (h(x \<mapsto> \<lparr>request = k, response = Buffer (fst v), response_len = snd v, cnext = None\<rparr>)) start x = Some (Inr h')"
      "cache_ok h' start hd0 junk rs'"
      "cache_abs rs' = (if k \<in> dom (cache_abs rs) then cache_abs rs else (cache_abs rs)(k \<mapsto> v))" unfolding prod.collapse by blast
    then show ?thesis unfolding cache_put_def cache_repr_def rs(2) by (metis option.simps(5) sum.simps(6))
  qed
qed

section \<open>Properties\<close>

text \<open>
  C16. Functional behaviour of the cache. Pushing a record for a request and looking any request up
  afterwards, on a well-formed cache: the new response is found under its own request if there was
  none under the same hash, otherwise every answer is what it was before and the record is
  discarded. Nothing faults and both loops end. (\<open>junk\<close> is what lies in the unused head.)
\<close>

theorem cache_push_then_find:
  assumes "cache_ok h start hd0 junk rs" and "rec \<notin> dom h" and "unat n \<le> CACHE_BUFFER_SIZE" and "hash req' \<noteq> junk"
  shows "\<exists>h'. push_record (h(rec \<mapsto> \<lparr>request = hash req, response = Buffer b, response_len = n, cnext = None\<rparr>))
      start rec = Some (Inr h') \<and>
    find_in_cache h' start req' =
      (if hash req' = hash req \<and> cache_abs rs (hash req) = None then Some (Inr (Some (n, strncpy0 b (unat n))))
       else find_in_cache h start req')"
proof -
  from push_record_fresh [OF assms(1-3), of "hash req" b] obtain h' rs' where
    h': "push_record (h(rec \<mapsto> \<lparr>request = hash req, response = Buffer b, response_len = n, cnext = None\<rparr>)) start rec = Some (Inr h')"
    and rs': "cache_ok h' start hd0 junk rs'"
      "cache_abs rs' = (if hash req \<in> dom (cache_abs rs) then cache_abs rs else (cache_abs rs)(hash req \<mapsto> (b, n)))" by blast
  from find_loop_ok [OF rs'(1) assms(4)] find_loop_ok [OF assms(1,4)] rs'(2)
  have "find_in_cache h' start req' =
      (if hash req' = hash req \<and> cache_abs rs (hash req) = None then Some (Inr (Some (n, strncpy0 b (unat n))))
       else find_in_cache h start req')"
    by (auto simp: find_in_cache_def cache_view_def)
  with h' show ?thesis by blast
qed

definition empty_cache_heap :: "cache_t heap" where
  "empty_cache_heap = [0 \<mapsto> \<lparr>request = 7, response = Garbage, response_len = 0, cnext = None\<rparr>]"

lemma empty_cache_ok: "cache_ok empty_cache_heap (Some 0) 0 7 []"
  by (simp add: cache_ok_def empty_cache_heap_def)

theorem cache_push_then_find_witness:
  "\<exists>h'. push_record (empty_cache_heap(5 \<mapsto> \<lparr>request = hash [71], response = Buffer (\<lambda>i. 65), response_len = 3, cnext = None\<rparr>))
      (Some 0) 5 = Some (Inr h') \<and>
    find_in_cache h' (Some 0) [71] = Some (Inr (Some (3, strncpy0 (\<lambda>i. 65) 3)))"
proof -
  have "hash [71] \<noteq> 7" by (simp add: hash_def)
  moreover have "5 \<notin> dom empty_cache_heap" by (simp add: empty_cache_heap_def)
  ultimately show ?thesis
    using cache_push_then_find [OF empty_cache_ok, of 5 3 "[71]" "[71]" "\<lambda>i. 65"]
    by (simp add: CACHE_BUFFER_SIZE_def cache_abs_def)
qed

text \<open>
  Two requests with the same hash are one request to the cache: the texts ab and bA have
  the same hash, and a client that asks for the second gets the response stored for the first.
\<close>

theorem cache_confuses_collisions:
  "[0x61, 0x62] \<noteq> ([0x62, 0x41] :: c_char list) \<and>
   (\<exists>h'. push_record (empty_cache_heap(5 \<mapsto> \<lparr>request = hash [0x61, 0x62], response = Buffer b, response_len = 3, cnext = None\<rparr>))
      (Some 0) 5 = Some (Inr h') \<and>
    find_in_cache h' (Some 0) [0x62, 0x41] = Some (Inr (Some (3, strncpy0 b 3))))"
proof
  have "hash [0x61, 0x62] = hash [0x62, 0x41]" by (simp add: hash_def)
  moreover have "hash [0x61, 0x62] \<noteq> 7" by (simp add: hash_def)
  moreover have "5 \<notin> dom empty_cache_heap" by (simp add: empty_cache_heap_def)
  ultimately show "\<exists>h'. push_record (empty_cache_heap(5 \<mapsto> \<lparr>request = hash [0x61, 0x62], response = Buffer b, response_len = 3, cnext = None\<rparr>))
      (Some 0) 5 = Some (Inr h') \<and>
    find_in_cache h' (Some 0) [0x62, 0x41] = Some (Inr (Some (3, strncpy0 b 3)))"
    using push_record_fresh [OF empty_cache_ok, of 5 3 "hash [0x61, 0x62]" b] find_loop_ok
    by (fastforce simp: CACHE_BUFFER_SIZE_def cache_abs_def find_in_cache_def cache_view_def)
qed simp

text \<open>
  \<open>destroy_cache\<close> of any well-formed cache frees the response of the head node, a pointer
  that was never written.
\<close>

theorem destroy_cache_frees_garbage:
  assumes "cache_ok h start hd0 junk rs"
  shows "destroy_cache h start = Some (Inl BadFree)"
  using assms by (auto simp: cache_ok_def destroy_cache.simps [of h "Some hd0"] delete_cache_record_def)

theorem destroy_cache_frees_garbage_witness:
  "init_cache (Some (0, \<lparr>request = 7, response = Null, response_len = 0, cnext = None\<rparr>)) Map.empty = (0, Some 0, empty_cache_heap) \<and>
   destroy_cache empty_cache_heap (Some 0) = Some (Inl BadFree)"
  using destroy_cache_frees_garbage [OF empty_cache_ok] by (simp add: init_cache_def empty_cache_heap_def)

end
