(* ===== verification/Proxy.thy ===== *)
theory Proxy
  imports Cache
begin

text \<open>
  The HTTP proxy of \<open>semestr2/Task3\<close>: \<open>src/server.c\<close>, \<open>src/proxy.c\<close> and \<open>src/main.c\<close> over the cache. What the kernel
  and the network answer is a parameter (the record \<open>env\<close> and the arguments of the socket functions);
  the functions return what the proxy does with it: the bytes it sends, the descriptors it closes, whether it posts
  the semaphore, and the cache. Log messages are left out.
\<close>

section \<open>Constants and strings\<close>

definition MAX_BUFFER_SIZE :: nat where "MAX_BUFFER_SIZE = 4096"
definition HOST_SIZE :: nat where "HOST_SIZE = 50"
definition MAX_USERS_COUNT :: nat where "MAX_USERS_COUNT = 10"

definition HOST :: "c_char list" where "HOST = [0x48, 0x6F, 0x73, 0x74, 0x3A]"

text \<open>\<open>strstr\<close>: the suffix that starts with the first occurrence.\<close>

fun strstr :: "c_char list \<Rightarrow> c_char list \<Rightarrow> c_char list option" where
  "strstr [] needle = (if needle = [] then Some [] else None)"
| "strstr (c # s) needle = (if take (length needle) (c # s) = needle then Some (c # s) else strstr s needle)"

text \<open>
  The host of \<open>execute_client_request\<close>: \<open>memccpy(host, strstr(request, HOST) + 6, '\r', sizeof(host))\<close> and the store
  of the null byte. Without the header the pointer is \<open>NULL + 6\<close>; when 50 bytes have no carriage return
  \<open>memccpy\<close> returns \<open>NULL\<close> and the store is out of bounds; behind the end of the request the array is
  not initialised.
\<close>

definition parse_host :: "c_char list \<Rightarrow> fault + c_char list" where
  "parse_host req = (case strstr req HOST of None \<Rightarrow> Inl BadAccess
     | Some s \<Rightarrow> let t = drop 6 s; name = takeWhile (\<lambda>c. c \<noteq> 0x0D) t
        in if length name < length t \<and> length name < HOST_SIZE \<and> 6 \<le> length s then Inr name
           else if HOST_SIZE \<le> length t then Inl OutOfBounds else Inl Uninitialised)"

section \<open>server.c\<close>

datatype fd = Server | Client | Dest

text \<open>\<open>create_server_socket\<close>: the results of \<open>socket\<close>, \<open>bind\<close> and \<open>listen\<close>; \<open>None\<close> is \<open>SOCKET_ERROR\<close>.\<close>

definition create_server_socket :: "bool \<Rightarrow> bool \<Rightarrow> bool \<Rightarrow> fd option \<times> fd list" where
  "create_server_socket socket_ok bind_ok listen_ok =
     (if \<not> socket_ok then (None, [])
      else if \<not> bind_ok then (None, [Server])
      else if \<not> listen_ok then (None, [Server])
      else (Some Server, []))"

text \<open>
  \<open>connect_to_remote\<close>: the results of \<open>getaddrinfo\<close>, \<open>socket\<close> and \<open>connect\<close>. When \<open>getaddrinfo\<close> fails it has not
  written \<open>res0\<close>, and the function frees it nevertheless.
\<close>

definition connect_to_remote :: "bool \<Rightarrow> bool \<Rightarrow> bool \<Rightarrow> fault + fd option \<times> fd list" where
  "connect_to_remote status_ok socket_ok connect_ok =
     (if \<not> status_ok then Inl BadFree
      else if \<not> socket_ok then Inr (None, [])
      else if \<not> connect_ok then Inr (None, [Dest])
      else Inr (Some Dest, []))"

text \<open>
  \<open>read_request\<close>: \<open>r\<close> is what \<open>read\<close> delivers, at most \<open>MAX_BUFFER_SIZE\<close> bytes, or \<open>None\<close> for an error. \<open>Inr None\<close> is
  \<open>EXIT_FAILURE\<close>. The null byte is stored at index \<open>bytes_read\<close> of an array of \<open>MAX_BUFFER_SIZE\<close> bytes.
\<close>

definition read_request :: "c_char list option \<Rightarrow> fault + c_char list option" where
  "read_request r = (case r of None \<Rightarrow> Inr None
     | Some bytes \<Rightarrow> if bytes = [] then Inr None
         else if length bytes < MAX_BUFFER_SIZE then Inr (Some (c_str bytes)) else Inl OutOfBounds)"

section \<open>The handler of a client\<close>

text \<open>
  The environment of one handler: \<open>malloc\<close> (the address and what lies in the memory) and \<open>calloc\<close> of the record, the
  three results of the connection, the result of every \<open>write\<close> (all bytes or an error), and what the remote server sends,
  a list of the pieces \<open>read\<close> returns; an empty piece, the end of the list and an error of \<open>read\<close> end the loop alike.
\<close>

record env =
  e_record :: "(addr \<times> cache_t) option"
  e_buffer_ok :: bool
  e_status_ok :: bool
  e_socket_ok :: bool
  e_connect_ok :: bool
  e_cached_write_ok :: bool
  e_request_write_ok :: bool
  e_client_write_ok :: "nat \<Rightarrow> bool"
  e_pieces :: "c_char list list"

text \<open>What a handler has done when it returns.\<close>

record reply =
  to_client :: "c_char list"
  to_remote :: "c_char list"
  closed :: "fd list"
  posted :: bool
  cells_after :: "cache_t heap"

text \<open>
  \<open>send_from_cache\<close>: \<open>None\<close> is \<open>EXIT_FAILURE\<close>, also when the record was found and the \<open>write\<close> failed; then the
  client's descriptor is closed.
\<close>

definition send_from_cache :: "cache_t heap \<Rightarrow> ptr \<Rightarrow> c_char list \<Rightarrow> bool \<Rightarrow>
    (fault + c_char list option \<times> fd list) option" where
  "send_from_cache h start req write_ok = (case find_in_cache h start req of None \<Rightarrow> None
     | Some (Inl e) \<Rightarrow> Some (Inl e)
     | Some (Inr None) \<Rightarrow> Some (Inr (None, []))
     | Some (Inr (Some (len, copy))) \<Rightarrow>
         if write_ok then Some (Inr (Some (map copy [0..<unat len]), [Client]))
         else Some (Inr (None, [Client])))"

text \<open>
  The loop that forwards the response: \<open>k\<close> counts the pieces, \<open>all_bytes_read\<close> the bytes; the result says whether
  the loop came to its end, the record, the number of bytes and what was sent.
\<close>

fun forward :: "(nat \<Rightarrow> bool) \<Rightarrow> nat \<Rightarrow> c_char list list \<Rightarrow> cache_t \<Rightarrow> nat \<Rightarrow> c_char list \<Rightarrow>
    fault + bool \<times> cache_t \<times> nat \<times> c_char list" where
  "forward write_ok k [] record all_bytes_read sent = Inr (True, record, all_bytes_read, sent)"
| "forward write_ok k (buffer # rest) record all_bytes_read sent =
     (if buffer = [] then Inr (True, record, all_bytes_read, sent)
      else if \<not> write_ok k then Inr (False, record, all_bytes_read, sent)
      else case add_response record buffer all_bytes_read of Inl e \<Rightarrow> Inl e
        | Inr record' \<Rightarrow> forward write_ok (Suc k) rest record' (all_bytes_read + length buffer) (sent @ buffer))"

text \<open>
  \<open>execute_client_request\<close>. After a failed connection \<open>dest_socket\<close> is \<open>-1\<close>, so the \<open>write\<close> of the request fails too.
\<close>

definition execute_client_request :: "env \<Rightarrow> c_char list \<Rightarrow> cache_t heap \<Rightarrow> ptr \<Rightarrow> (fault + reply) option" where
  "execute_client_request e req h start =
     (case send_from_cache h start req (e_cached_write_ok e) of None \<Rightarrow> None
      | Some (Inl f) \<Rightarrow> Some (Inl f)
      | Some (Inr (Some bytes, fds)) \<Rightarrow> Some (Inr \<lparr>to_client = bytes, to_remote = [], closed = fds @ [Client],
          posted = False, cells_after = h\<rparr>)
      | Some (Inr (None, fds)) \<Rightarrow>
        (case e_record e of None \<Rightarrow> Some (Inl NullDeref)
         | Some (a, junk) \<Rightarrow>
          let record0 = snd (init_cache_record (e_buffer_ok e) (junk\<lparr>response := Garbage\<rparr>));
              record1 = add_request record0 req
          in (case parse_host req of Inl f \<Rightarrow> Some (Inl f)
            | Inr host \<Rightarrow>
              (case connect_to_remote (e_status_ok e) (e_socket_ok e) (e_connect_ok e) of
                 Inl f \<Rightarrow> Some (Inl f)
               | Inr (None, fds') \<Rightarrow>
                   Some (Inr \<lparr>to_client = [], to_remote = [], closed = fds @ fds' @ [Client, Client],
                     posted = False, cells_after = h(a \<mapsto> record1)\<rparr>)
               | Inr (Some d, fds') \<Rightarrow>
                 if \<not> e_request_write_ok e
                 then Some (Inr \<lparr>to_client = [], to_remote = [], closed = fds @ fds' @ [Client, d],
                        posted = False, cells_after = h(a \<mapsto> record1)\<rparr>)
                 else (case forward (e_client_write_ok e) 0 (e_pieces e) record1 0 [] of Inl f \<Rightarrow> Some (Inl f)
                   | Inr (False, record, n, sent) \<Rightarrow>
                       Some (Inr \<lparr>to_client = sent, to_remote = req, closed = fds @ fds' @ [Client, d],
                         posted = False, cells_after = h(a \<mapsto> record)\<rparr>)
                   | Inr (True, record, n, sent) \<Rightarrow>
                      (case push_record (h(a \<mapsto> add_size record (of_nat n))) start a of None \<Rightarrow> None
                       | Some (Inl f) \<Rightarrow> Some (Inl f)
                       | Some (Inr h') \<Rightarrow> Some (Inr \<lparr>to_client = sent, to_remote = req,
                           closed = fds @ fds' @ [Client, d], posted = True, cells_after = h'\<rparr>)))))))"

section \<open>The accept loop\<close>

record proxy =
  p_cells :: "cache_t heap"
  p_cache :: ptr
  p_sem :: nat

datatype accepted = Accept_error | Accepted "c_char list option" env

text \<open>How a round of \<open>accept_new_client\<close> ends: the next state, waiting for ever in \<open>sem_wait\<close>, or the end of the process.\<close>

datatype round = Served proxy "reply option" | Blocked | Ended | Broken fault

text \<open>
  One round, with the handler of the client run to its end before the next client is accepted. The semaphore counts the free
  handlers.
\<close>

definition accept_new_client :: "accepted \<Rightarrow> proxy \<Rightarrow> round option" where
  "accept_new_client acc s = (case acc of
     Accept_error \<Rightarrow> (case destroy_cache (p_cells s) (p_cache s) of None \<Rightarrow> None
        | Some (Inl f) \<Rightarrow> Some (Broken f) | Some (Inr h) \<Rightarrow> Some Ended)
   | Accepted r e \<Rightarrow> (case read_request r of Inl f \<Rightarrow> Some (Broken f)
       | Inr None \<Rightarrow> Some (Served s None)
       | Inr (Some req) \<Rightarrow>
          if p_sem s = 0 then Some Blocked
          else (case execute_client_request e req (p_cells s) (p_cache s) of None \<Rightarrow> None
            | Some (Inl f) \<Rightarrow> Some (Broken f)
            | Some (Inr rep) \<Rightarrow> Some (Served (s\<lparr>p_cells := cells_after rep,
                p_sem := p_sem s - 1 + (if posted rep then 1 else 0)\<rparr>) (Some rep)))))"

text \<open>The loop: how it ends (with the clients that come, finitely many) and the replies to the clients.\<close>

fun accept_loop :: "accepted list \<Rightarrow> proxy \<Rightarrow> (round \<times> reply option list) option" where
  "accept_loop [] s = Some (Served s None, [])"
| "accept_loop (a # as) s = (case accept_new_client a s of None \<Rightarrow> None
     | Some (Served s' rep) \<Rightarrow> map_option (\<lambda>(r, reps). (r, rep # reps)) (accept_loop as s')
     | Some r \<Rightarrow> Some (r, []))"

text \<open>\<open>run_proxy\<close> and \<open>main\<close>: the server socket, the cache, the loop.\<close>

definition run_proxy :: "bool \<Rightarrow> bool \<Rightarrow> bool \<Rightarrow> (addr \<times> cache_t) option \<Rightarrow> accepted list \<Rightarrow> nat \<Rightarrow> (round \<times> reply option list) option" where
  "run_proxy socket_ok bind_ok listen_ok malloc clients sem =
     (case create_server_socket socket_ok bind_ok listen_ok of (None, fds) \<Rightarrow> Some (Ended, [])
      | (Some srv, fds) \<Rightarrow> (case init_cache malloc Map.empty of (st, p, h) \<Rightarrow>
          if st \<noteq> 0 then (case destroy_cache h p of None \<Rightarrow> None
             | Some (Inl f) \<Rightarrow> Some (Broken f, []) | Some (Inr h') \<Rightarrow> Some (Ended, []))
          else accept_loop clients \<lparr>p_cells = h, p_cache = p, p_sem = sem\<rparr>))"

definition proxy_main :: "bool \<Rightarrow> bool \<Rightarrow> bool \<Rightarrow> (addr \<times> cache_t) option \<Rightarrow> accepted list \<Rightarrow> (round \<times> reply option list) option" where
  "proxy_main socket_ok bind_ok listen_ok malloc clients =
     run_proxy socket_ok bind_ok listen_ok malloc clients MAX_USERS_COUNT"

section \<open>Facts about the parts\<close>

lemma strstr_first:
  assumes "\<And>k. k < length pre \<Longrightarrow> take (length n) (drop k (pre @ n @ r)) \<noteq> n" and "n \<noteq> []"
  shows "strstr (pre @ n @ r) n = Some (n @ r)"
  using assms(1)
proof (induction pre)
  case Nil
  then show ?case using assms(2) by (cases n) auto
next
  case (Cons c pre)
  from Cons.prems [of 0] have "take (length n) (c # pre @ n @ r) \<noteq> n" by simp
  moreover have "strstr (pre @ n @ r) n = Some (n @ r)"
  proof (rule Cons.IH)
    show "take (length n) (drop k (pre @ n @ r)) \<noteq> n" if "k < length pre" for k
      using Cons.prems [of "Suc k"] that by simp
  qed
  ultimately show ?case by simp
qed

lemma forward_all:
  assumes "\<And>k. write_ok k" and "response rc = Buffer b" and "pos + length (concat ps) \<le> CACHE_BUFFER_SIZE" and "[] \<notin> set ps"
  shows "forward write_ok k ps rc pos sent = Inr (True,
    rc\<lparr>response := Buffer (\<lambda>i. if pos \<le> i \<and> i < pos + length (concat ps) then concat ps ! (i - pos) else b i)\<rparr>,
    pos + length (concat ps), sent @ concat ps)"
  using assms(2-4)
proof (induction ps arbitrary: k rc pos sent b)
  case Nil
  have "(\<lambda>i. if pos \<le> i \<and> i < pos then concat [] ! (i - pos) else b i) = b" by (auto simp: fun_eq_iff)
  with Nil show ?case by (cases rc) simp
next
  case (Cons p ps)
  let ?b = "\<lambda>i. if pos \<le> i \<and> i < pos + length p then p ! (i - pos) else b i"
  from Cons.prems have 1: "add_response rc p pos = Inr (rc\<lparr>response := Buffer ?b\<rparr>)"
    by (simp add: add_response_def)
  have 2: "(\<lambda>i. if pos + length p \<le> i \<and> i < pos + length p + length (concat ps) then concat ps ! (i - (pos + length p)) else ?b i) =
      (\<lambda>i. if pos \<le> i \<and> i < pos + length (concat (p # ps)) then concat (p # ps) ! (i - pos) else b i)"
    by (auto simp: fun_eq_iff nth_append)
  have "forward write_ok (Suc k) ps (rc\<lparr>response := Buffer ?b\<rparr>) (pos + length p) (sent @ p) = Inr (True,
    rc\<lparr>response := Buffer (\<lambda>i. if pos + length p \<le> i \<and> i < pos + length p + length (concat ps) then concat ps ! (i - (pos + length p)) else ?b i)\<rparr>,
    pos + length p + length (concat ps), (sent @ p) @ concat ps)"
    using Cons.IH [of "rc\<lparr>response := Buffer ?b\<rparr>" ?b "pos + length p" "Suc k" "sent @ p"] Cons.prems(2,3) by simp
  moreover have "p \<noteq> []" "write_ok k" using Cons.prems(3) assms(1) by auto
  ultimately show ?case using 1 2 by (simp add: add.assoc)
qed


lemma unat_of_nat_c_long: "n < 2 ^ 64 \<Longrightarrow> unat (of_nat n :: c_long) = n"
  by (simp add: unsigned_of_nat take_bit_nat_eq_self)

text \<open>An environment in which everything a handler asks for succeeds.\<close>

definition env_ok :: "env \<Rightarrow> addr \<Rightarrow> bool" where
  "env_ok e a \<longleftrightarrow> map_option fst (e_record e) = Some a \<and> e_buffer_ok e \<and> e_status_ok e \<and> e_socket_ok e \<and> e_connect_ok e \<and>
     e_request_write_ok e \<and> (\<forall>k. e_client_write_ok e k) \<and> length (concat (e_pieces e)) \<le> CACHE_BUFFER_SIZE \<and>
     (\<forall>p \<in> set (e_pieces e). p \<noteq> [] \<and> length p \<le> MAX_BUFFER_SIZE)"

lemma send_from_cache_hit:
  assumes "cache_ok h start hd0 junk rs" and "hash req \<noteq> junk" and "cache_abs rs (hash req) = Some (b, n)"
  shows "send_from_cache h start req True = Some (Inr (Some (map (strncpy0 b (unat n)) [0..<unat n]), [Client]))"
  using find_loop_ok [OF assms(1,2)] assms(3) by (simp add: send_from_cache_def find_in_cache_def cache_view_def)

lemma send_from_cache_miss:
  assumes "cache_ok h start hd0 junk rs" and "hash req \<noteq> junk" and "cache_abs rs (hash req) = None"
  shows "send_from_cache h start req ok = Some (Inr (None, []))"
  using find_loop_ok [OF assms(1,2)] assms(3) by (simp add: send_from_cache_def find_in_cache_def)

lemma handler_miss:
  assumes ok: "cache_ok h start hd0 junk rs" and new: "cache_abs rs (hash req) = None" and hj: "hash req \<noteq> junk"
    and host: "parse_host req = Inr host" and env: "env_ok e a" and fresh: "a \<notin> dom h"
  shows "\<exists>r rs' b. execute_client_request e req h start = Some (Inr r) \<and> to_client r = concat (e_pieces e) \<and>
    to_remote r = req \<and> posted r \<and> cache_ok (cells_after r) start hd0 junk rs' \<and>
    cache_abs rs' = (cache_abs rs)(hash req \<mapsto> (b, of_nat (length (concat (e_pieces e))))) \<and>
    (\<forall>i < length (concat (e_pieces e)). b i = concat (e_pieces e) ! i) \<and> dom (cells_after r) \<subseteq> insert a (dom h)"
proof -
  let ?bs = "concat (e_pieces e)"
  let ?b = "\<lambda>i. if i < length ?bs then ?bs ! i else 0"
  obtain mem where j: "e_record e = Some (a, mem)" using env by (auto simp: env_ok_def)
  let ?r1 = "\<lparr>request = hash req, response = Buffer (\<lambda>i. 0), response_len = response_len mem, cnext = None\<rparr>"
  have e: "e_buffer_ok e" "e_status_ok e" "e_socket_ok e" "e_connect_ok e" "e_request_write_ok e"
    "\<And>k. e_client_write_ok e k" "length ?bs \<le> CACHE_BUFFER_SIZE" "[] \<notin> set (e_pieces e)" using env by (auto simp: env_ok_def)
  have "(\<lambda>i. if i < length ?bs then ?bs ! (i - 0) else 0) = ?b" by (simp add: fun_eq_iff)
  then have f: "forward (e_client_write_ok e) 0 (e_pieces e) ?r1 0 [] =
      Inr (True, ?r1\<lparr>response := Buffer ?b\<rparr>, length ?bs, ?bs)"
    using forward_all [of "e_client_write_ok e" ?r1 "\<lambda>i. 0" 0 "e_pieces e" 0 "[]"] e(6-8) by simp
  have n: "unat (of_nat (length ?bs) :: c_long) \<le> CACHE_BUFFER_SIZE"
    using unat_of_nat_c_long [of "length ?bs"] e(7) by (simp add: CACHE_BUFFER_SIZE_def)
  obtain h' rs' where p: "push_record (h(a \<mapsto> \<lparr>request = hash req, response = Buffer ?b,
      response_len = of_nat (length ?bs), cnext = None\<rparr>)) start a = Some (Inr h')"
    "cache_ok h' start hd0 junk rs'"
    "cache_abs rs' = (if hash req \<in> dom (cache_abs rs) then cache_abs rs
       else (cache_abs rs)(hash req \<mapsto> (?b, of_nat (length ?bs))))" "dom h' \<subseteq> insert a (dom h)"
    using push_record_fresh [OF ok fresh n, of "hash req" ?b] by blast
  have m: "mem\<lparr>response := Buffer (\<lambda>i. 0), cnext := None, request := hash req\<rparr> = ?r1" by (cases mem) simp
  have "execute_client_request e req h start = Some (Inr \<lparr>to_client = ?bs, to_remote = req,
      closed = [Client, Dest], posted = True, cells_after = h'\<rparr>)"
    using send_from_cache_miss [OF ok hj new] host f p(1) e(1-5) j
    by (simp add: m execute_client_request_def init_cache_record_def add_request_def add_size_def connect_to_remote_def)
  moreover have "cache_abs rs' = (cache_abs rs)(hash req \<mapsto> (?b, of_nat (length ?bs)))"
    using p(3) new by (simp add: domIff)
  ultimately show ?thesis using p(2,4) by (intro exI conjI) (assumption | simp)+
qed

lemma handler_hit:
  assumes ok: "cache_ok h start hd0 junk rs" and hj: "hash req \<noteq> junk" and hit: "cache_abs rs (hash req) = Some (b, n)"
    and w: "e_cached_write_ok e"
  shows "execute_client_request e req h start = Some (Inr \<lparr>to_client = map (strncpy0 b (unat n)) [0..<unat n],
    to_remote = [], closed = [Client, Client], posted = False, cells_after = h\<rparr>)"
  using send_from_cache_hit [OF ok hj hit] w by (simp add: execute_client_request_def)

lemma hits_use_up_semaphore:
  assumes "cache_ok (p_cells s) (p_cache s) hd0 junk rs" and "hash (c_str bytes) \<noteq> junk"
    and "cache_abs rs (hash (c_str bytes)) = Some v" and "bytes \<noteq> []" and "length bytes < MAX_BUFFER_SIZE"
    and "e_cached_write_ok e"
  shows "\<exists>reps. accept_loop (replicate (Suc (p_sem s)) (Accepted (Some bytes) e)) s = Some (Blocked, map Some reps) \<and>
    (\<forall>r \<in> set reps. to_remote r = []) \<and> length reps = p_sem s"
  using assms(1)
proof (induction "p_sem s" arbitrary: s)
  case 0
  then show ?case using assms(4,5) by (auto simp: accept_new_client_def read_request_def)
next
  case (Suc n)
  obtain b k where v: "v = (b, k)" by (cases v)
  let ?s = "s\<lparr>p_sem := n\<rparr>"
  let ?r = "\<lparr>to_client = map (strncpy0 b (unat k)) [0..<unat k], to_remote = [], closed = [Client, Client],
    posted = False, cells_after = p_cells s\<rparr>"
  have "accept_new_client (Accepted (Some bytes) e) s = Some (Served ?s (Some ?r))"
    using handler_hit [OF Suc.prems assms(2) assms(3) [unfolded v] assms(6)] Suc.hyps(2) assms(4,5)
    by (simp add: accept_new_client_def read_request_def)
  moreover from Suc.hyps(1) [of ?s] Suc.prems obtain reps where
    "accept_loop (replicate (Suc n) (Accepted (Some bytes) e)) ?s = Some (Blocked, map Some reps)"
    "\<forall>r \<in> set reps. to_remote r = []" "length reps = n" by auto
  ultimately show ?case unfolding Suc.hyps(2) [symmetric]
    by (intro exI [of _ "?r # reps"]) simp
qed

text \<open>A client with a request the cache has no entry for, in an environment where everything succeeds.\<close>

definition new_client :: "cache_t heap \<Rightarrow> c_ulong \<Rightarrow> (c_ulong \<rightharpoonup> (nat \<Rightarrow> c_char) \<times> c_long) \<Rightarrow> c_char list \<Rightarrow> addr \<Rightarrow> env \<Rightarrow> bool" where
  "new_client h junk m bytes a e \<longleftrightarrow> bytes \<noteq> [] \<and> length bytes < MAX_BUFFER_SIZE \<and> hash (c_str bytes) \<noteq> junk \<and>
     m (hash (c_str bytes)) = None \<and> (\<exists>host. parse_host (c_str bytes) = Inr host) \<and> env_ok e a \<and> a \<notin> dom h"

lemma accept_new:
  assumes "cache_ok (p_cells s) (p_cache s) hd0 junk rs" and "new_client (p_cells s) junk (cache_abs rs) bytes a e" and "0 < p_sem s"
  shows "\<exists>r rs' b. accept_new_client (Accepted (Some bytes) e) s = Some (Served (s\<lparr>p_cells := cells_after r\<rparr>) (Some r)) \<and>
    to_client r = concat (e_pieces e) \<and> to_remote r = c_str bytes \<and>
    cache_ok (cells_after r) (p_cache s) hd0 junk rs' \<and>
    cache_abs rs' = (cache_abs rs)(hash (c_str bytes) \<mapsto> (b, of_nat (length (concat (e_pieces e))))) \<and>
    (\<forall>i < length (concat (e_pieces e)). b i = concat (e_pieces e) ! i) \<and> dom (cells_after r) \<subseteq> insert a (dom (p_cells s))"
proof -
  from assms(2) obtain host where n: "bytes \<noteq> []" "length bytes < MAX_BUFFER_SIZE" "hash (c_str bytes) \<noteq> junk"
    "cache_abs rs (hash (c_str bytes)) = None" "parse_host (c_str bytes) = Inr host" "env_ok e a" "a \<notin> dom (p_cells s)"
    by (auto simp: new_client_def)
  from handler_miss [OF assms(1) n(4,3,5-7)] obtain r rs' b where
    r: "execute_client_request e (c_str bytes) (p_cells s) (p_cache s) = Some (Inr r)" "posted r"
      "to_client r = concat (e_pieces e)" "to_remote r = c_str bytes"
      "cache_ok (cells_after r) (p_cache s) hd0 junk rs'"
      "cache_abs rs' = (cache_abs rs)(hash (c_str bytes) \<mapsto> (b, of_nat (length (concat (e_pieces e)))))"
      "\<forall>i < length (concat (e_pieces e)). b i = concat (e_pieces e) ! i" "dom (cells_after r) \<subseteq> insert a (dom (p_cells s))"
    by blast
  have "accept_new_client (Accepted (Some bytes) e) s = Some (Served (s\<lparr>p_cells := cells_after r\<rparr>) (Some r))"
    using r(1,2) n(1,2) assms(3) by (simp add: accept_new_client_def read_request_def)
  with r show ?thesis by blast
qed

section \<open>Properties\<close>


text \<open>A request for the host x, and an environment in which the remote server answers in two pieces.\<close>

definition sample_request :: "c_char list" where
  "sample_request = [0x47] @ HOST @ [0x20, 0x78, 0x0D, 0x0A]"

definition sample_env :: "addr \<Rightarrow> env" where
  "sample_env a = \<lparr>e_record = Some (a, \<lparr>request = 1, response = Null, response_len = 2, cnext = Some 9\<rparr>), e_buffer_ok = True,
     e_status_ok = True, e_socket_ok = True, e_connect_ok = True, e_cached_write_ok = True, e_request_write_ok = True,
     e_client_write_ok = (\<lambda>k. True), e_pieces = [[0x4F, 0x4B], [0x21]]\<rparr>"

lemma sample_env_ok: "env_ok (sample_env a) a"
  by (simp add: env_ok_def sample_env_def CACHE_BUFFER_SIZE_def MAX_BUFFER_SIZE_def)

lemma sample_request_facts:
  "c_str sample_request = sample_request" "sample_request \<noteq> []" "length sample_request < MAX_BUFFER_SIZE"
  "hash sample_request \<noteq> 7" "parse_host sample_request = Inr [0x78]"
  by (simp_all add: sample_request_def HOST_def c_str_def hash_def parse_host_def HOST_SIZE_def MAX_BUFFER_SIZE_def)

lemma sample_new_client: "new_client empty_cache_heap 7 (cache_abs []) sample_request 5 (sample_env 5)"
  using sample_request_facts sample_env_ok
  by (simp add: new_client_def empty_cache_heap_def cache_abs_def)




text \<open>
  C30. The program stops serving. A first client asks for something new; every later client asks for the same and gets it
  from the cache. A handler that answers from the cache does not post the semaphore, so after ten of them the next
  client waits for ever.
\<close>

theorem proxy_blocks_after_cache_hits:
  assumes "new_client [a0 \<mapsto> mem\<lparr>response := Garbage, cnext := None\<rparr>] (request mem) (cache_abs []) bytes a e"
    and "e_cached_write_ok e'"
  shows "\<exists>reps. proxy_main True True True (Some (a0, mem))
      (Accepted (Some bytes) e # replicate (Suc MAX_USERS_COUNT) (Accepted (Some bytes) e')) = Some (Blocked, map Some reps) \<and>
    length reps = Suc MAX_USERS_COUNT"
proof -
  let ?h = "[a0 \<mapsto> mem\<lparr>response := Garbage, cnext := None\<rparr>]"
  let ?s = "\<lparr>p_cells = ?h, p_cache = Some a0, p_sem = MAX_USERS_COUNT\<rparr>"
  have "cache_ok (p_cells ?s) (p_cache ?s) a0 (request mem) []" by (simp add: cache_ok_def)
  from accept_new [OF this, of bytes a e] assms(1) obtain r rs' b where
    r: "accept_new_client (Accepted (Some bytes) e) ?s = Some (Served (?s\<lparr>p_cells := cells_after r\<rparr>) (Some r))"
      "cache_ok (cells_after r) (Some a0) a0 (request mem) rs'"
      "cache_abs rs' (hash (c_str bytes)) = Some (b, of_nat (length (concat (e_pieces e))))"
    by (auto simp: MAX_USERS_COUNT_def)
  let ?t = "?s\<lparr>p_cells := cells_after r\<rparr>"
  from assms(1) have "hash (c_str bytes) \<noteq> request mem" "bytes \<noteq> []" "length bytes < MAX_BUFFER_SIZE"
    by (simp_all add: new_client_def)
  from hits_use_up_semaphore [OF _ this(1) r(3) this(2,3) assms(2), of ?t] r(2) obtain reps where
    "accept_loop (replicate (Suc MAX_USERS_COUNT) (Accepted (Some bytes) e')) ?t = Some (Blocked, map Some reps)"
    "length reps = MAX_USERS_COUNT" by auto
  with r(1) show ?thesis
    by (intro exI [of _ "r # reps"]) (simp add: proxy_main_def run_proxy_def create_server_socket_def init_cache_def)
qed

theorem proxy_blocks_after_cache_hits_witness:
  "\<exists>reps. proxy_main True True True (Some (0, \<lparr>request = 7, response = Garbage, response_len = 0, cnext = None\<rparr>))
      (Accepted (Some sample_request) (sample_env 5) # replicate 11 (Accepted (Some sample_request) (sample_env 6))) =
      Some (Blocked, map Some reps) \<and> length reps = 11"
  using proxy_blocks_after_cache_hits [of 0 "\<lparr>request = 7, response = Garbage, response_len = 0, cnext = None\<rparr>"
    sample_request 5 "sample_env 5" "sample_env 6"] sample_new_client
  by (simp add: empty_cache_heap_def sample_env_def MAX_USERS_COUNT_def eval_nat_numeral)

text \<open>
  C32. The host of a request. If the header Host: occurs, followed by a blank, a name of fewer than 50 bytes without carriage
  return, and a carriage return, then the proxy connects to the name behind its first occurrence.
\<close>

theorem parse_host_name:
  assumes "\<forall>k < length pre. take (length HOST) (drop k (pre @ HOST @ 0x20 # name @ 0x0D # rest)) \<noteq> HOST"
    and "0x0D \<notin> set name" and "length name < HOST_SIZE"
  shows "parse_host (pre @ HOST @ 0x20 # name @ 0x0D # rest) = Inr name"
proof -
  have "strstr (pre @ HOST @ 0x20 # name @ 0x0D # rest) HOST = Some (HOST @ 0x20 # name @ 0x0D # rest)"
    using assms(1) by (intro strstr_first) (simp_all add: HOST_def)
  moreover have "takeWhile (\<lambda>c. c \<noteq> 0x0D) (name @ 0x0D # rest) = name"
    using assms(2) by (auto simp: takeWhile_append)
  ultimately show ?thesis using assms(3) by (simp add: parse_host_def HOST_def)
qed

theorem parse_host_name_witness:
  "parse_host ([0x47] @ HOST @ 0x20 # [0x78] @ 0x0D # [0x0A]) = Inr [0x78]"
  by (rule parse_host_name) (simp_all add: HOST_def HOST_SIZE_def)

end
