(* ===== verification/Proxy_Threads.thy ===== *)
theory Proxy_Threads
  imports Proxy Interleaving
begin

text \<open>
  The threads of the proxy of \<open>semestr2/Task3\<close>: the loop of \<open>accept_new_client\<close> and the handlers it creates, interleaved statement by statement. The loop
  hands a handler the address of its variable \<open>ctx\<close>, which lies in the same place in every round, and does not wait until the handler has read
  it. The operations of the cache run under \<open>cache_mutex\<close> and are one step each. Descriptors are numbers that \<open>accept\<close> may hand out again once
  they are closed; the table \<open>px_socks\<close> says which client a descriptor belongs to. The functions of \<open>Proxy\<close> and \<open>Cache\<close> are used for what is done in one
  step.
\<close>

section \<open>Data\<close>

record context_t =
  cx_client_socket :: nat
  cx_request :: ptr

text \<open>
  What comes to the accept loop: an error of \<open>accept\<close>, or a client with its descriptor, the buffer \<open>calloc\<close> returns for its request, what \<open>read\<close> delivers, the
  environment of its handler, and whether \<open>pthread_create\<close> succeeds.
\<close>

datatype arrival = Arrival_error | Arrival (a_fd: nat) (a_buf: addr) (a_bytes: "c_char list option") (a_env: env) (a_create: bool)

datatype main_point = M_accept | M_wait nat addr env bool | M_ctx nat addr env bool | M_create env bool | M_exit

text \<open>
  The points of \<open>execute_client_request\<close> with its local variables: \<open>client_socket\<close>, \<open>request0\<close>, the copy \<open>request\<close>, the record, the pieces still to come, and
  \<open>all_bytes_read\<close>.
\<close>

datatype handler =
    H_socket
  | H_request nat
  | H_copy nat ptr
  | H_lookup nat ptr "c_char list"
  | H_hit_free nat
  | H_close_again nat
  | H_miss nat ptr "c_char list"
  | H_forward nat ptr addr nat "c_char list list" nat
  | H_push nat ptr addr nat
  | H_close nat ptr
  | H_free ptr
  | H_post
  | H_end bool

record px =
  px_cells :: "cache_t heap"
  px_cache :: ptr
  px_sem :: nat
  px_ctx :: context_t
  px_bufs :: "c_char list heap"
  px_socks :: "nat \<rightharpoonup> nat"
  px_main :: main_point
  px_arrivals :: "arrival list"
  px_handlers :: "(handler \<times> env) list"
  px_accepted :: nat
  px_sent :: "(nat \<times> c_char list) list"
  px_failed :: "fault option"

definition px_fail :: "px \<Rightarrow> fault \<Rightarrow> px" where
  "px_fail s f = s\<lparr>px_failed := Some f\<rparr>"

section \<open>The accept loop\<close>

text \<open>
  One statement of \<open>accept_new_client\<close>. \<open>pthread_create\<close> returns a positive number when it fails; the loop compares with \<open>-1\<close> and goes on.
\<close>

definition accept_step :: "px \<Rightarrow> px option" where
  "accept_step s = (case px_main s of
     M_accept \<Rightarrow> (case px_arrivals s of [] \<Rightarrow> None
       | Arrival_error # as \<Rightarrow> (case destroy_cache (px_cells s) (px_cache s) of None \<Rightarrow> None
           | Some (Inl f) \<Rightarrow> Some (px_fail s f)
           | Some (Inr h) \<Rightarrow> Some (s\<lparr>px_cells := h, px_main := M_exit, px_arrivals := as\<rparr>))
       | Arrival fd buf bytes e ok # as \<Rightarrow>
         if fd \<in> dom (px_socks s) \<or> buf \<in> dom (px_bufs s) then None
         else (case read_request bytes of Inl f \<Rightarrow> Some (px_fail s f)
           | Inr None \<Rightarrow> Some (s\<lparr>px_arrivals := as, px_accepted := px_accepted s + 1\<rparr>)
           | Inr (Some req) \<Rightarrow> Some (s\<lparr>px_socks := (px_socks s)(fd \<mapsto> px_accepted s), px_bufs := (px_bufs s)(buf \<mapsto> req),
               px_accepted := px_accepted s + 1, px_arrivals := as, px_main := M_wait fd buf e ok\<rparr>)))
   | M_wait fd buf e ok \<Rightarrow> if px_sem s = 0 then None
       else Some (s\<lparr>px_sem := px_sem s - 1, px_main := M_ctx fd buf e ok\<rparr>)
   | M_ctx fd buf e ok \<Rightarrow> Some (s\<lparr>px_ctx := \<lparr>cx_client_socket = fd, cx_request = Some buf\<rparr>, px_main := M_create e ok\<rparr>)
   | M_create e ok \<Rightarrow> Some (s\<lparr>px_handlers := (if ok then px_handlers s @ [(H_socket, e)] else px_handlers s), px_main := M_accept\<rparr>)
   | M_exit \<Rightarrow> None)"

section \<open>A handler\<close>

text \<open>What one statement yields: the next point and the state.\<close>

definition hfail :: "handler \<Rightarrow> px \<Rightarrow> fault \<Rightarrow> (handler \<times> px) option" where
  "hfail h s f = Some (h, px_fail s f)"

text \<open>
  From the allocation of the record to the request to the remote server. Of what is shared these statements read the request and close the descriptor; they are one step. The
  pointer \<open>request0\<close> is used again for \<open>add_request\<close>, the copy for everything else.
\<close>

definition handle_miss :: "nat \<Rightarrow> ptr \<Rightarrow> c_char list \<Rightarrow> env \<Rightarrow> px \<Rightarrow> (handler \<times> px) option" where
  "handle_miss fd p req e s = (case e_record e of None \<Rightarrow> hfail (H_miss fd p req) s NullDeref
     | Some (a, junk) \<Rightarrow> if a \<in> dom (px_cells s) then None
       else (case load (px_bufs s) p of Inl f \<Rightarrow> hfail (H_miss fd p req) s f
         | Inr req0 \<Rightarrow>
           let s1 = s\<lparr>px_cells := (px_cells s)(a \<mapsto>
                 add_request (snd (init_cache_record (e_buffer_ok e) (junk\<lparr>response := Garbage\<rparr>))) req0)\<rparr>;
               s2 = s1\<lparr>px_socks := (px_socks s)(fd := None)\<rparr>
           in (case parse_host req of Inl f \<Rightarrow> hfail (H_miss fd p req) s f
             | Inr host \<Rightarrow> (case connect_to_remote (e_status_ok e) (e_socket_ok e) (e_connect_ok e) of
                 Inl f \<Rightarrow> hfail (H_miss fd p req) s f
               | Inr (None, fds) \<Rightarrow> Some (H_close_again fd, s2)
               | Inr (Some d, fds) \<Rightarrow> if e_request_write_ok e then Some (H_forward fd p a 0 (e_pieces e) 0, s1)
                   else Some (H_end False, s2)))))"

fun forward_step :: "nat \<Rightarrow> ptr \<Rightarrow> addr \<Rightarrow> nat \<Rightarrow> c_char list list \<Rightarrow> nat \<Rightarrow> env \<Rightarrow> px \<Rightarrow> (handler \<times> px) option" where
  "forward_step fd p a k [] n e s = Some (H_push fd p a n, s)"
| "forward_step fd p a k (b # ps) n e s =
     (if b = [] then Some (H_push fd p a n, s)
      else (case px_socks s fd of None \<Rightarrow> Some (H_end False, s)
       | Some c \<Rightarrow> if \<not> e_client_write_ok e k then Some (H_end False, s\<lparr>px_socks := (px_socks s)(fd := None)\<rparr>)
         else (case load (px_cells s) (Some a) of Inl f \<Rightarrow> hfail (H_forward fd p a k (b # ps) n) s f
           | Inr r \<Rightarrow> (case add_response r b n of Inl f \<Rightarrow> hfail (H_forward fd p a k (b # ps) n) s f
             | Inr r' \<Rightarrow> Some (H_forward fd p a (Suc k) ps (n + length b),
                 s\<lparr>px_cells := (px_cells s)(a \<mapsto> r'), px_sent := px_sent s @ [(c, b)]\<rparr>)))))"

fun handler_step :: "handler \<Rightarrow> env \<Rightarrow> px \<Rightarrow> (handler \<times> px) option" where
  "handler_step H_socket e s = Some (H_request (cx_client_socket (px_ctx s)), s)"
| "handler_step (H_request fd) e s = Some (H_copy fd (cx_request (px_ctx s)), s)"
| "handler_step (H_copy fd p) e s = (case load (px_bufs s) p of Inl f \<Rightarrow> hfail (H_copy fd p) s f
     | Inr req0 \<Rightarrow> Some (H_lookup fd p (c_str req0), s))"
| "handler_step (H_lookup fd p req) e s =
     (case send_from_cache (px_cells s) (px_cache s) req (e_cached_write_ok e \<and> fd \<in> dom (px_socks s)) of None \<Rightarrow> None
      | Some (Inl f) \<Rightarrow> hfail (H_lookup fd p req) s f
      | Some (Inr (Some bytes, fds)) \<Rightarrow> Some (H_hit_free fd,
          s\<lparr>px_socks := (px_socks s)(fd := None), px_sent := px_sent s @ [(the (px_socks s fd), bytes)]\<rparr>)
      | Some (Inr (None, fds)) \<Rightarrow> Some (H_miss fd p req, if fds = [] then s else s\<lparr>px_socks := (px_socks s)(fd := None)\<rparr>))"
| "handler_step (H_hit_free fd) e s = (case free_cell (px_bufs s) (cx_request (px_ctx s)) of Inl f \<Rightarrow> hfail (H_hit_free fd) s f
     | Inr bufs \<Rightarrow> Some (H_close_again fd, s\<lparr>px_bufs := bufs\<rparr>))"
| "handler_step (H_close_again fd) e s = Some (H_end False, s\<lparr>px_socks := (px_socks s)(fd := None)\<rparr>)"
| "handler_step (H_miss fd p req) e s = handle_miss fd p req e s"
| "handler_step (H_forward fd p a k ps n) e s = forward_step fd p a k ps n e s"
| "handler_step (H_push fd p a n) e s = (case load (px_cells s) (Some a) of Inl f \<Rightarrow> hfail (H_push fd p a n) s f
     | Inr r \<Rightarrow> (case push_record ((px_cells s)(a \<mapsto> add_size r (of_nat n))) (px_cache s) a of None \<Rightarrow> None
       | Some (Inl f) \<Rightarrow> hfail (H_push fd p a n) s f
       | Some (Inr h) \<Rightarrow> Some (H_close fd p, s\<lparr>px_cells := h\<rparr>)))"
| "handler_step (H_close fd p) e s = Some (H_free p, s\<lparr>px_socks := (px_socks s)(fd := None)\<rparr>)"
| "handler_step (H_free p) e s = (case free_cell (px_bufs s) p of Inl f \<Rightarrow> hfail (H_free p) s f
     | Inr bufs \<Rightarrow> Some (H_post, s\<lparr>px_bufs := bufs\<rparr>))"
| "handler_step H_post e s = Some (H_end True, s\<lparr>px_sem := px_sem s + 1\<rparr>)"
| "handler_step (H_end b) e s = None"

section \<open>The program\<close>

datatype pthr = P_main | P_handler nat

definition px_step :: "pthr \<Rightarrow> px \<Rightarrow> px option" where
  "px_step t s = (if px_failed s \<noteq> None \<or> px_main s = M_exit then None
     else (case t of P_main \<Rightarrow> accept_step s
       | P_handler i \<Rightarrow> if i < length (px_handlers s)
           then (case px_handlers s ! i of (h, e) \<Rightarrow>
             map_option (\<lambda>(h', s'). s'\<lparr>px_handlers := (px_handlers s)[i := (h', e)]\<rparr>) (handler_step h e s))
           else None))"

text \<open>The state in which \<open>run_proxy\<close> enters the loop: the head of the cache at \<open>hd0\<close> with what \<open>malloc\<close> left there.\<close>

definition px_start :: "addr \<Rightarrow> cache_t \<Rightarrow> arrival list \<Rightarrow> px" where
  "px_start hd0 mem as = \<lparr>px_cells = [hd0 \<mapsto> mem\<lparr>response := Garbage, cnext := None\<rparr>], px_cache = Some hd0, px_sem = MAX_USERS_COUNT,
     px_ctx = \<lparr>cx_client_socket = 0, cx_request = None\<rparr>, px_bufs = Map.empty, px_socks = Map.empty, px_main = M_accept, px_arrivals = as,
     px_handlers = [], px_accepted = 0, px_sent = [], px_failed = None\<rparr>"

section \<open>The semaphore\<close>





section \<open>The cache\<close>

text \<open>What a remote server sends in all: the pieces up to the end of the connection.\<close>

definition pieces_read :: "c_char list list \<Rightarrow> c_char list list" where
  "pieces_read ps = takeWhile (\<lambda>b. b \<noteq> []) ps"


lemma pieces_read_simps [simp]:
  "pieces_read [] = []" "pieces_read ([] # ps) = []" "b \<noteq> [] \<Longrightarrow> pieces_read (b # ps) = b # pieces_read ps"
  by (simp_all add: pieces_read_def)






















section \<open>Properties\<close>


text \<open>Two clients with the same request on the descriptors 4 and 5, and what \<open>malloc\<close> left in the head.\<close>

definition sample_head :: cache_t where
  "sample_head = \<lparr>request = 7, response = Garbage, response_len = 0, cnext = None\<rparr>"

definition two_clients :: "arrival list" where
  "two_clients = [Arrival 4 100 (Some sample_request) (sample_env 5) True, Arrival 5 200 (Some sample_request) (sample_env 6) True]"

lemmas px_eval = px_step_def accept_step_def px_fail_def hfail_def read_request_def handle_miss_def send_from_cache_def find_in_cache_def
  push_record_def connect_to_remote_def init_cache_record_def add_request_def add_response_def add_size_def px_start_def sample_head_def
  MAX_BUFFER_SIZE_def MAX_USERS_COUNT_def CACHE_BUFFER_SIZE_def sample_env_def find_loop.simps push_loop.simps free_cell_def load_def



text \<open>
  Answers from the cache free and close what belongs to others. The second client is answered from the cache; before its handler goes on, the loop accepts a third
  client, which gets the descriptor that was just closed. The handler of the second client frees the request of the third and closes its connection.
\<close>

theorem proxy_hit_frees_next_request:
  "\<exists>s. run px_step (replicate 4 P_main @ replicate 12 (P_handler 0) @ replicate 4 P_main @ replicate 4 (P_handler 1) @ replicate 4 P_main @
      replicate 2 (P_handler 1) @ replicate 3 (P_handler 2))
      (px_start 0 sample_head (two_clients @ [Arrival 5 300 (Some sample_request) (sample_env 8) True])) = Some s \<and>
    px_failed s = Some BadAccess \<and> map fst (px_sent s) = [0, 0, 1] \<and> px_socks s = Map.empty \<and> px_bufs s = [200 \<mapsto> sample_request]"
  using sample_request_facts by (simp add: replicate_num px_eval two_clients_def)

end
