(* ===== verification/Logger.thy ===== *)
theory Logger
  imports Proxy
begin

text \<open>
  The log of the proxy, \<open>semestr2/Task3/header/logger.h\<close>. The texts are built with \<open>sprintf\<close> in arrays of fixed size without a test; the theory keeps the arrays at their
  size and shows which texts fit, in particular that the texts the proxy logs about its clients do.
\<close>

section \<open>Texts\<close>

definition LOG_BUFFER_SIZE :: nat where "LOG_BUFFER_SIZE = 4096"

definition RESET :: "c_char list" where "RESET = 0x1B # bytes_of ''[0m''"
definition RED :: "c_char list" where "RED = 0x1B # bytes_of ''[1;31m''"
definition GREEN :: "c_char list" where "GREEN = 0x1B # bytes_of ''[1;32m''"
definition YELLOW :: "c_char list" where "YELLOW = 0x1B # bytes_of ''[1;33m''"
definition BLUE :: "c_char list" where "BLUE = 0x1B # bytes_of ''[1;34m''"
definition PURPLE :: "c_char list" where "PURPLE = 0x1B # bytes_of ''[1;35m''"

text \<open>\<open>%ld\<close>.\<close>

definition decimal :: "c_long \<Rightarrow> c_char list" where
  "decimal n = (if sint n < 0 then bytes_of (CHR ''-'' # digits (nat (- sint n))) else bytes_of (digits (nat (sint n))))"

text \<open>\<open>sprintf\<close> of a text into an array: the null byte must fit too.\<close>

definition sprintf_into :: "nat \<Rightarrow> c_char list \<Rightarrow> fault + c_char list" where
  "sprintf_into cap text = (if length text < cap then Inr text else Inl OutOfBounds)"

section \<open>The functions\<close>

datatype stream = Stdout | Stderr

text \<open>\<open>logg\<close> on the thread \<open>thread_id\<close>: the stream and the text; \<open>perror\<close> adds the description of the last error, \<open>printf\<close> a new line.\<close>

definition logg :: "c_long \<Rightarrow> c_char list \<Rightarrow> c_char list \<Rightarrow> fault + stream \<times> c_char list" where
  "logg thread_id msg color =
     (let text = color @ bytes_of ''[Thread '' @ decimal thread_id @ bytes_of ''] '' @ msg @ RESET
      in if color = RED then fbind (sprintf_into LOG_BUFFER_SIZE text) (\<lambda>buf. Inr (Stderr, buf))
         else Inr (Stdout, text @ [0x0A]))"

definition logg_char :: "c_long \<Rightarrow> c_char list \<Rightarrow> c_char list \<Rightarrow> c_char list \<Rightarrow> fault + stream \<times> c_char list" where
  "logg_char thread_id msg info color =
     fbind (sprintf_into (LOG_BUFFER_SIZE + 100) (msg @ bytes_of '' '' @ info)) (\<lambda>buf. logg thread_id buf color)"

definition logg_int :: "c_long \<Rightarrow> c_char list \<Rightarrow> c_long \<Rightarrow> c_char list \<Rightarrow> fault + stream \<times> c_char list" where
  "logg_int thread_id msg info color =
     fbind (sprintf_into (LOG_BUFFER_SIZE + 100) (msg @ decimal info)) (\<lambda>buf. logg thread_id buf color)"

section \<open>Properties\<close>

lemma length_bytes_of [simp]: "length (bytes_of s) = length s"
  by (simp add: bytes_of_def)

text \<open>A number of 64 bits has at most 19 digits and a sign.\<close>

lemma length_decimal: "length (decimal n) \<le> 20"
proof -
  have "\<bar>sint n\<bar> \<le> 2 ^ 63" using sint_range_size [of n] by (auto simp: word_size)
  then have "nat \<bar>sint n\<bar> < 10 ^ Suc 18" by simp
  from digits_length [OF this] show ?thesis by (auto simp: decimal_def abs_if)
qed

lemma logg_fits:
  assumes "length msg < LOG_BUFFER_SIZE - 64"
  shows "\<exists>out. logg tid msg color = Inr (if color = RED then Stderr else Stdout, out)"
  using assms length_decimal [of tid]
  by (auto simp: logg_def Let_def sprintf_into_def RED_def RESET_def LOG_BUFFER_SIZE_def)

text \<open>
  C33. What the proxy logs about its clients fits: a request \<open>read_request\<close> accepts and a host \<open>parse_host\<close> finds, each behind a message of at most
  80 bytes, the request in any colour but red. With red the limit is that of the smaller array, and a request can be too long for it; longer texts overflow
  the arrays in any colour.
\<close>

theorem proxy_log_fits:
  assumes "length msg \<le> 80" and "color \<noteq> RED"
  shows "(read_request r = Inr (Some req) \<longrightarrow> logg_char tid msg req color =
      Inr (Stdout, color @ bytes_of ''[Thread '' @ decimal tid @ bytes_of ''] '' @ (msg @ bytes_of '' '' @ req) @ RESET @ [0x0A])) \<and>
    (parse_host q = Inr host \<longrightarrow> (\<exists>out. logg_char tid msg host RED = Inr (Stderr, out))) \<and>
    (\<exists>out. logg_int tid msg n RED = Inr (Stderr, out)) \<and>
    (LOG_BUFFER_SIZE + 100 \<le> length info \<longrightarrow> logg_char tid msg info color = Inl OutOfBounds) \<and>
    (LOG_BUFFER_SIZE \<le> length info \<longrightarrow> logg_char tid msg info RED = Inl OutOfBounds)"
proof (intro conjI impI)
  assume "read_request r = Inr (Some req)"
  then have "length req < 4096"
    by (auto simp: read_request_def MAX_BUFFER_SIZE_def c_str_def split: option.splits if_splits
      intro: le_less_trans [OF length_takeWhile_le])
  then show "logg_char tid msg req color =
      Inr (Stdout, color @ bytes_of ''[Thread '' @ decimal tid @ bytes_of ''] '' @ (msg @ bytes_of '' '' @ req) @ RESET @ [0x0A])"
    using assms by (simp add: logg_char_def logg_def sprintf_into_def LOG_BUFFER_SIZE_def)
next
  assume "parse_host q = Inr host"
  then have "length host < 50" by (auto simp: parse_host_def HOST_SIZE_def Let_def split: option.splits if_splits)
  then show "\<exists>out. logg_char tid msg host RED = Inr (Stderr, out)"
    using assms logg_fits [of "msg @ bytes_of '' '' @ host" tid RED] by (simp add: logg_char_def sprintf_into_def LOG_BUFFER_SIZE_def)
next
  show "\<exists>out. logg_int tid msg n RED = Inr (Stderr, out)"
    using assms logg_fits [of "msg @ decimal n" tid RED] length_decimal [of n]
    by (simp add: logg_int_def sprintf_into_def LOG_BUFFER_SIZE_def)
next
  assume "LOG_BUFFER_SIZE + 100 \<le> length info"
  then show "logg_char tid msg info color = Inl OutOfBounds" by (simp add: logg_char_def sprintf_into_def)
next
  assume "LOG_BUFFER_SIZE \<le> length info"
  then show "logg_char tid msg info RED = Inl OutOfBounds"
    by (cases "length (msg @ bytes_of '' '' @ info) < LOG_BUFFER_SIZE + 100")
      (simp_all add: logg_char_def logg_def sprintf_into_def Let_def)
qed

theorem proxy_log_fits_witness:
  "read_request (Some (replicate 4095 0x41)) = Inr (Some (replicate 4095 0x41)) \<and>
   logg_char 1 (bytes_of ''Received request:'') (replicate 4095 0x41) GREEN =
     Inr (Stdout, GREEN @ bytes_of ''[Thread '' @ decimal 1 @ bytes_of ''] '' @ (bytes_of ''Received request:'' @ bytes_of '' '' @ replicate 4095 0x41) @ RESET @ [0x0A]) \<and>
   logg_char 1 (bytes_of ''Received request:'') (replicate 4200 0x41) GREEN = Inl OutOfBounds"
proof -
  have "read_request (Some (replicate 4095 0x41)) = Inr (Some (replicate 4095 0x41))"
    by (simp add: read_request_def MAX_BUFFER_SIZE_def)
  moreover have "GREEN \<noteq> RED" by (simp add: GREEN_def RED_def bytes_of_def)
  ultimately show ?thesis
    using proxy_log_fits [of "bytes_of ''Received request:''" GREEN] by (simp add: LOG_BUFFER_SIZE_def)
qed

end
