(* ===== verification/Uthreads.thy ===== *)
theory Uthreads
  imports Interleaving
begin

text \<open>
  The user-level threads of \<open>semestr2/Task1/Task1_7/uthread_create.c\<close>: contexts on mapped stacks, a round-robin \<open>schedule\<close>, and a POSIX thread, the checker,
  that removes finished threads. The C stack of a context is the list of the points at which its functions go on, the innermost first;
  \<open>swapcontext\<close> stores the list of the caller and takes up another one. The thread of \<open>main\<close> and the checker interleave statement by statement.

  The stacks are filled with the byte \<open>0x7f\<close>, and the flags \<open>is_running\<close> and \<open>is_finish\<close> of a thread lie in them and are read before they are
  written. No object of type \<open>bool\<close> has that byte; what a comparison of it with \<open>true\<close> or \<open>false\<close> gives is a parameter (the record \<open>compiler\<close>), and the
  theorems cover every choice of it. Printing other than the greetings of the threads is left out.
\<close>

section \<open>Data\<close>

definition MAX_THREAD :: nat where "MAX_THREAD = 200"
definition SIZE_NAME_FILE :: nat where "SIZE_NAME_FILE = 128"

datatype flag = Filled | Stored bool

record compiler =
  filled_is_true :: bool
  filled_is_false :: bool

fun is_true :: "compiler \<Rightarrow> flag \<Rightarrow> bool" where
  "is_true c Filled = filled_is_true c"
| "is_true c (Stored b) = b"

fun is_false :: "compiler \<Rightarrow> flag \<Rightarrow> bool" where
  "is_false c Filled = filled_is_false c"
| "is_false c (Stored b) = (\<not> b)"

datatype thread_func = My_thread1 | My_thread2 | My_thread3

text \<open>
  The points of the functions that run on the thread of \<open>main\<close>: the loop and the end of \<open>main\<close>, the loop of \<open>start_thread\<close> at index \<open>i\<close>, the thread
  functions (with \<open>number_thread\<close> and the index of the loop), and the statements of \<open>schedule\<close>.
\<close>

datatype point =
    Main_while | Main_join | Main_end
  | Start_for nat | Start_if nat | Start_set nat | Start_call nat
  | Thread_entry thread_func nat | Thread_for thread_func nat nat | Thread_finish thread_func nat | Thread_wait thread_func nat
  | Sched_cur | Sched_mod addr | Sched_next addr | Sched_swap addr addr

datatype checker_point = C_while | C_for nat | C_if nat | C_remove nat | C_null nat | C_count | C_stop | C_end

text \<open>The descriptor of a thread; \<open>arg\<close> is the number the argument points to.\<close>

record uthread_t =
  number_thread :: nat
  thread_func :: thread_func
  uarg :: nat
  uctx :: "point list"
  is_running :: flag
  is_finish :: flag
  stack_file :: string

text \<open>
  The globals, the memory the descriptors lie in, the stack files, the C stack of the thread of \<open>main\<close> (empty when it has ended), the checker with its
  local variable, the greetings printed so far, and what went wrong.
\<close>

record ustate =
  umem :: "uthread_t heap"
  uthreads :: "nat \<Rightarrow> ptr"
  uthread_count :: nat
  uthread_cur :: nat
  stop_work_checker :: bool
  stack_files :: "string list"
  control :: "point list"
  checker :: checker_point
  count_kill_threads :: nat
  hellos :: "thread_func list"
  failed :: "fault option"

definition fail_with :: "ustate \<Rightarrow> fault \<Rightarrow> ustate" where
  "fail_with s e = s\<lparr>failed := Some e\<rparr>"

text \<open>An access through \<open>uthreads[i]\<close>.\<close>

definition with_thread :: "ustate \<Rightarrow> nat \<Rightarrow> (addr \<Rightarrow> uthread_t \<Rightarrow> ustate) \<Rightarrow> ustate" where
  "with_thread s i k = (if i < MAX_THREAD then
     (case uthreads s i of None \<Rightarrow> fail_with s NullDeref
      | Some a \<Rightarrow> (case umem s a of None \<Rightarrow> fail_with s BadAccess | Some t \<Rightarrow> k a t))
     else fail_with s OutOfBounds)"

section \<open>Creation\<close>

text \<open>
  \<open>create_stack\<close>: the file is created if \<open>open\<close> succeeds; \<open>mmap\<close> delivers the stack or \<open>MAP_FAILED\<close> (\<open>None\<close>), which is not \<open>NULL\<close>, is not tested, and is
  written to.
\<close>

definition create_stack :: "bool \<Rightarrow> addr option \<Rightarrow> string \<Rightarrow> string list \<Rightarrow> fault + addr \<times> string list" where
  "create_stack open_ok mmap name files =
     (case mmap of None \<Rightarrow> Inl BadAccess
      | Some a \<Rightarrow> Inr (a, if open_ok then List.insert name files else files))"

definition stack_file_name :: "nat \<Rightarrow> string" where
  "stack_file_name n = take (SIZE_NAME_FILE - 1) (''stack-'' @ digits n)"

text \<open>\<open>uthread_create\<close>; \<open>Inr None\<close> is the exit of the process when \<open>getcontext\<close> fails.\<close>

definition uthread_create :: "bool \<Rightarrow> addr option \<Rightarrow> bool \<Rightarrow> thread_func \<Rightarrow> nat \<Rightarrow> ustate \<Rightarrow> fault + ustate option" where
  "uthread_create open_ok mmap getcontext_ok f arg s =
     (case create_stack open_ok mmap (stack_file_name (uthread_count s)) (stack_files s) of Inl e \<Rightarrow> Inl e
      | Inr (a, files) \<Rightarrow>
        if \<not> getcontext_ok then Inr None
        else if uthread_count s < MAX_THREAD then
          Inr (Some (s\<lparr>umem := (umem s)(a \<mapsto> \<lparr>number_thread = uthread_count s, thread_func = f, uarg = arg, uctx = [Start_for 0],
                 is_running = Filled, is_finish = Filled, stack_file = stack_file_name (uthread_count s)\<rparr>),
               uthreads := (uthreads s)(uthread_count s := Some a), uthread_count := uthread_count s + 1,
               stack_files := files\<rparr>))
        else Inl OutOfBounds)"

section \<open>The thread of main\<close>

text \<open>The statements of \<open>start_thread\<close>.\<close>

fun start_thread :: "compiler \<Rightarrow> point \<Rightarrow> point list \<Rightarrow> ustate \<Rightarrow> ustate" where
  "start_thread c (Start_for i) ks s = (if i < uthread_count s then s\<lparr>control := Start_if i # ks\<rparr> else s\<lparr>control := ks\<rparr>)"
| "start_thread c (Start_if i) ks s = with_thread s i (\<lambda>a t.
     s\<lparr>control := (if is_false c (is_running t) then Start_set i else Start_for (i + 1)) # ks\<rparr>)"
| "start_thread c (Start_set i) ks s = with_thread s i (\<lambda>a t.
     s\<lparr>umem := (umem s)(a \<mapsto> t\<lparr>is_running := Stored True\<rparr>), control := Start_call i # ks\<rparr>)"
| "start_thread c (Start_call i) ks s = with_thread s i (\<lambda>a t.
     s\<lparr>control := Thread_entry (thread_func t) (uarg t) # Start_for (i + 1) # ks\<rparr>)"
| "start_thread c _ ks s = s"

text \<open>
  The statements of a thread function; the three functions have the same body up to the greeting \<open>f\<close>. The loop at the end sleeps until the checker stops.
\<close>

fun thread_body :: "thread_func \<Rightarrow> point \<Rightarrow> point list \<Rightarrow> ustate \<Rightarrow> ustate" where
  "thread_body f (Thread_entry _ arg) ks s = s\<lparr>control := Thread_for f arg 0 # ks\<rparr>"
| "thread_body f (Thread_for _ n i) ks s =
     (if i < 5 then s\<lparr>hellos := hellos s @ [f], control := Sched_cur # Thread_for f n (i + 1) # ks\<rparr>
      else s\<lparr>control := Thread_finish f n # ks\<rparr>)"
| "thread_body f (Thread_finish _ n) ks s = with_thread s n (\<lambda>a t.
     s\<lparr>umem := (umem s)(a \<mapsto> t\<lparr>is_finish := Stored True\<rparr>), control := Thread_wait f n # ks\<rparr>)"
| "thread_body f (Thread_wait _ n) ks s = (if stop_work_checker s then s\<lparr>control := ks\<rparr> else s)"
| "thread_body f _ ks s = s"

definition my_thread1 :: "point \<Rightarrow> point list \<Rightarrow> ustate \<Rightarrow> ustate" where "my_thread1 = thread_body My_thread1"
definition my_thread2 :: "point \<Rightarrow> point list \<Rightarrow> ustate \<Rightarrow> ustate" where "my_thread2 = thread_body My_thread2"
definition my_thread3 :: "point \<Rightarrow> point list \<Rightarrow> ustate \<Rightarrow> ustate" where "my_thread3 = thread_body My_thread3"

fun in_thread :: "thread_func \<Rightarrow> point \<Rightarrow> point list \<Rightarrow> ustate \<Rightarrow> ustate" where
  "in_thread My_thread1 p ks s = my_thread1 p ks s"
| "in_thread My_thread2 p ks s = my_thread2 p ks s"
| "in_thread My_thread3 p ks s = my_thread3 p ks s"

text \<open>The statements of \<open>schedule\<close>: \<open>cur_ctx\<close>, the next index, \<open>next_ctx\<close>, \<open>swapcontext\<close>.\<close>

fun schedule :: "point \<Rightarrow> point list \<Rightarrow> ustate \<Rightarrow> ustate" where
  "schedule Sched_cur ks s = with_thread s (uthread_cur s) (\<lambda>a t. s\<lparr>control := Sched_mod a # ks\<rparr>)"
| "schedule (Sched_mod a) ks s = (if uthread_count s = 0 then fail_with s DivByZero
     else s\<lparr>uthread_cur := (uthread_cur s + 1) mod uthread_count s, control := Sched_next a # ks\<rparr>)"
| "schedule (Sched_next a) ks s = with_thread s (uthread_cur s) (\<lambda>b t. s\<lparr>control := Sched_swap a b # ks\<rparr>)"
| "schedule (Sched_swap a b) ks s = (case umem s a of None \<Rightarrow> fail_with s BadAccess
     | Some t \<Rightarrow> let m = (umem s)(a \<mapsto> t\<lparr>uctx := ks\<rparr>) in
        (case m b of None \<Rightarrow> fail_with s BadAccess | Some t' \<Rightarrow> s\<lparr>umem := m, control := uctx t'\<rparr>))"
| "schedule _ ks s = s"

definition main_point :: "point \<Rightarrow> point list \<Rightarrow> ustate \<Rightarrow> ustate option" where
  "main_point p ks s = (if p = Main_while
     then Some (s\<lparr>control := (if 0 < uthread_count s then Sched_cur # Main_while # ks else Main_join # ks)\<rparr>)
     else if p = Main_join then (if checker s = C_end then Some (s\<lparr>control := [Main_end]\<rparr>) else None)
     else None)"

text \<open>The next statement of the thread of \<open>main\<close>; \<open>None\<close> when it waits in \<open>pthread_join\<close> or has ended.\<close>

definition kernel_main :: "compiler \<Rightarrow> ustate \<Rightarrow> ustate option" where
  "kernel_main c s = (case control s of [] \<Rightarrow> None
     | p # ks \<Rightarrow> (case p of Main_while \<Rightarrow> main_point p ks s | Main_join \<Rightarrow> main_point p ks s | Main_end \<Rightarrow> None
       | Start_for i \<Rightarrow> Some (start_thread c p ks s) | Start_if i \<Rightarrow> Some (start_thread c p ks s)
       | Start_set i \<Rightarrow> Some (start_thread c p ks s) | Start_call i \<Rightarrow> Some (start_thread c p ks s)
       | Sched_cur \<Rightarrow> Some (schedule p ks s) | Sched_mod a \<Rightarrow> Some (schedule p ks s)
       | Sched_next a \<Rightarrow> Some (schedule p ks s) | Sched_swap a b \<Rightarrow> Some (schedule p ks s)
       | Thread_entry f arg \<Rightarrow> Some (in_thread f p ks s) | Thread_for f n i \<Rightarrow> Some (in_thread f p ks s)
       | Thread_finish f n \<Rightarrow> Some (in_thread f p ks s) | Thread_wait f n \<Rightarrow> Some (in_thread f p ks s)))"

section \<open>The checker\<close>

fun checker_finish_thread :: "compiler \<Rightarrow> checker_point \<Rightarrow> ustate \<Rightarrow> ustate option" where
  "checker_finish_thread c C_while s = Some (s\<lparr>checker := (if count_kill_threads s < uthread_count s then C_for 0 else C_count)\<rparr>)"
| "checker_finish_thread c (C_for i) s = Some (s\<lparr>checker := (if i < uthread_count s then C_if i else C_while)\<rparr>)"
| "checker_finish_thread c (C_if i) s = Some (if i < MAX_THREAD \<and> uthreads s i = None then s\<lparr>checker := C_for (i + 1)\<rparr>
     else with_thread s i (\<lambda>a t. s\<lparr>checker := (if is_true c (is_finish t) then C_remove i else C_for (i + 1))\<rparr>))"
| "checker_finish_thread c (C_remove i) s = Some (with_thread s i (\<lambda>a t.
     s\<lparr>stack_files := removeAll (stack_file t) (stack_files s), checker := C_null i\<rparr>))"
| "checker_finish_thread c (C_null i) s = Some (s\<lparr>count_kill_threads := count_kill_threads s + 1,
     uthreads := (uthreads s)(i := None), checker := C_for (i + 1)\<rparr>)"
| "checker_finish_thread c C_count s = Some (s\<lparr>uthread_count := 0, checker := C_stop\<rparr>)"
| "checker_finish_thread c C_stop s = Some (s\<lparr>stop_work_checker := True, checker := C_end\<rparr>)"
| "checker_finish_thread c C_end s = None"

section \<open>The program\<close>

datatype uthr = Kernel_main | Checker

definition exited :: "ustate \<Rightarrow> bool" where
  "exited s \<longleftrightarrow> control s = [Main_end]"

definition u_step :: "compiler \<Rightarrow> uthr \<Rightarrow> ustate \<Rightarrow> ustate option" where
  "u_step c w s = (if failed s \<noteq> None \<or> exited s then None
     else (case w of Kernel_main \<Rightarrow> kernel_main c s | Checker \<Rightarrow> checker_finish_thread c (checker s) s))"

definition u_init :: ustate where
  "u_init = \<lparr>umem = Map.empty, uthreads = (\<lambda>i. None), uthread_count = 0, uthread_cur = 0, stop_work_checker = False, stack_files = [],
     control = [Main_while], checker = C_while, count_kill_threads = 0, hellos = [], failed = None\<rparr>"

text \<open>
  \<open>main\<close> up to its loop, with the addresses of the three descriptors and the result of \<open>pthread_create\<close>; \<open>None\<close> when the process exits.
\<close>

definition uthread_main :: "addr \<Rightarrow> addr \<Rightarrow> addr \<Rightarrow> c_int \<Rightarrow> fault + ustate option" where
  "uthread_main a0 a1 a2 err =
     fbind (uthread_create True (Some a0) True My_thread1 0 u_init) (\<lambda>r0. case r0 of None \<Rightarrow> Inr None | Some s0 \<Rightarrow>
     fbind (uthread_create True (Some a1) True My_thread2 1 s0) (\<lambda>r1. case r1 of None \<Rightarrow> Inr None | Some s1 \<Rightarrow>
     fbind (uthread_create True (Some a2) True My_thread3 2 s1) (\<lambda>r2. case r2 of None \<Rightarrow> Inr None | Some s2 \<Rightarrow>
     if err \<noteq> 0 then Inr None else Inr (Some s2))))"


text \<open>The statements of the thread of \<open>main\<close>, for symbolic execution.\<close>

lemmas main_code = kernel_main_def main_point_def my_thread1_def my_thread2_def my_thread3_def with_thread_def fail_with_def

end
