(* ===== verification/Uthreads_Checker.thy ===== *)
theory Uthreads_Checker
  imports Uthreads
begin

text \<open>
  The three threads of \<open>uthread_create.c\<close> together with the checker: the program never ends when the bytes in the flags are not taken for \<open>true\<close>, and goes wrong when they are. As long
  as no thread has finished, the checker only looks on, so the reachable states are those of the undisturbed thread of \<open>main\<close>, 94 statements long, with the checker
  anywhere in its loops.
\<close>

section \<open>The thread of main and the checker together\<close>

lemma with_thread_checker:
  "with_thread (s\<lparr>checker := q\<rparr>) i (\<lambda>a t. (k a t)\<lparr>checker := q\<rparr>) = (with_thread s i k)\<lparr>checker := q\<rparr>"
  by (simp add: with_thread_def fail_with_def split: option.splits)

























text \<open>The state after the creations.\<close>

lemma uthread_main_start:
  assumes "uthread_main a0 a1 a2 0 = Inr (Some s0)"
  shows "s0 = \<lparr>umem = [a0 \<mapsto> \<lparr>number_thread = 0, thread_func = My_thread1, uarg = 0, uctx = [Start_for 0], is_running = Filled,
        is_finish = Filled, stack_file = stack_file_name 0\<rparr>,
      a1 \<mapsto> \<lparr>number_thread = 1, thread_func = My_thread2, uarg = 1, uctx = [Start_for 0], is_running = Filled,
        is_finish = Filled, stack_file = stack_file_name 1\<rparr>,
      a2 \<mapsto> \<lparr>number_thread = 2, thread_func = My_thread3, uarg = 2, uctx = [Start_for 0], is_running = Filled,
        is_finish = Filled, stack_file = stack_file_name 2\<rparr>],
    uthreads = (\<lambda>i. None)(0 := Some a0, 1 := Some a1, 2 := Some a2), uthread_count = 3, uthread_cur = 0, stop_work_checker = False,
    stack_files = List.insert (stack_file_name 2) (List.insert (stack_file_name 1) [stack_file_name 0]),
    control = [Main_while], checker = C_while, count_kill_threads = 0, hellos = [], failed = None\<rparr>"
  using assms by (simp add: uthread_main_def uthread_create_def create_stack_def u_init_def MAX_THREAD_def numeral_2_eq_2 numeral_3_eq_3)






section \<open>Properties\<close>



text \<open>
  When the byte is taken for \<open>true\<close>, the checker takes threads for finished that have not started. Depending on the interleaving the program then dereferences
  \<open>NULL\<close>, divides by zero, or ends without any thread having run.
\<close>

theorem uthreads_removed_too_early:
  assumes "uthread_main a0 a1 a2 0 = Inr (Some s0)" and "distinct [a0, a1, a2]" and "filled_is_true c"
  shows "(\<exists>ts s. run (u_step c) ts s0 = Some s \<and> failed s = Some NullDeref) \<and>
    (\<exists>ts s. run (u_step c) ts s0 = Some s \<and> failed s = Some DivByZero) \<and>
    (\<exists>ts s. run (u_step c) ts s0 = Some s \<and> exited s \<and> failed s = None \<and> hellos s = [] \<and> stack_files s = [])"
proof (intro conjI)
  show "\<exists>ts s. run (u_step c) ts s0 = Some s \<and> failed s = Some NullDeref"
    using assms(2,3) unfolding uthread_main_start [OF assms(1)]
    by (intro exI [of _ "replicate 5 Checker @ [Kernel_main, Kernel_main]"])
      (simp add: replicate_num u_step_def exited_def main_code MAX_THREAD_def)
  show "\<exists>ts s. run (u_step c) ts s0 = Some s \<and> failed s = Some DivByZero"
    using assms(2,3) unfolding uthread_main_start [OF assms(1)]
    by (intro exI [of _ "[Kernel_main, Kernel_main] @ replicate 16 Checker @ [Kernel_main]"])
      (simp add: replicate_num u_step_def exited_def main_code MAX_THREAD_def)
  show "\<exists>ts s. run (u_step c) ts s0 = Some s \<and> exited s \<and> failed s = None \<and> hellos s = [] \<and> stack_files s = []"
    using assms(2,3) unfolding uthread_main_start [OF assms(1)]
    by (intro exI [of _ "replicate 17 Checker @ [Kernel_main, Kernel_main]"])
      (simp add: replicate_num u_step_def exited_def main_code MAX_THREAD_def List.insert_def)
qed

theorem uthreads_removed_too_early_witness:
  "\<exists>s0. uthread_main 10 20 30 0 = Inr (Some s0) \<and>
    (\<exists>ts s. run (u_step \<lparr>filled_is_true = True, filled_is_false = True\<rparr>) ts s0 = Some s \<and> failed s = Some NullDeref)"
proof -
  obtain s0 where s0: "uthread_main 10 20 30 0 = Inr (Some s0)"
    by (auto simp: uthread_main_def uthread_create_def create_stack_def u_init_def MAX_THREAD_def)
  with uthreads_removed_too_early [OF s0, of "\<lparr>filled_is_true = True, filled_is_false = True\<rparr>"] show ?thesis by auto
qed

end
