(* ===== verification/Thread_Life.thy ===== *)
theory Thread_Life
  imports Interleaving
begin

text \<open>
  The life of POSIX threads in the programs of \<open>semestr2/Task1/Task1_2\<close>: threads that are never joined (\<open>thread_point_d.c\<close>), detached ones (\<open>thread_point_e.c\<close>,
  \<open>thread_point_f.c\<close>), and the value a joined thread leaves (\<open>thread_point_b.c\<close>). What the threads library does is its documented behaviour: a terminated thread keeps its
  descriptor until it is joined, unless it is detached; \<open>pthread_create\<close> fails when too many descriptors are in use.
\<close>

section \<open>Threads nobody joins\<close>

datatype demo = Point_d | Point_e | Point_f

text \<open>Where a created thread is: before its output, before \<open>pthread_detach\<close>, before its \<open>return\<close>, terminated.\<close>

datatype demo_point = D_print | D_detach | D_return | D_gone

record demo_thread =
  d_pc :: demo_point
  d_detached :: bool

text \<open>The threads created so far, the exit status of the process, the number of greetings and of failed calls of \<open>pthread_detach\<close>.\<close>

record demo_state =
  d_threads :: "demo_thread list"
  d_exit :: "nat option"
  d_hellos :: nat
  d_undetached :: nat

definition EXIT_FAILURE :: nat where "EXIT_FAILURE = 1"

definition keeps_descriptor :: "demo_thread \<Rightarrow> bool" where
  "keeps_descriptor t \<longleftrightarrow> \<not> (d_pc t = D_gone \<and> d_detached t)"

definition descriptors :: "demo_state \<Rightarrow> nat" where
  "descriptors s = length (filter keeps_descriptor (d_threads s))"

text \<open>
  One round of the loop of \<open>main\<close>; \<open>limit\<close> is the number of descriptors the library has. The attribute of \<open>thread_point_f.c\<close> makes threads that are detached from the start.
\<close>

definition create_round :: "bool \<Rightarrow> nat \<Rightarrow> demo_state \<Rightarrow> demo_state" where
  "create_round detached limit s = (if descriptors s < limit then s\<lparr>d_threads := d_threads s @ [\<lparr>d_pc = D_print, d_detached = detached\<rparr>]\<rparr>
     else s\<lparr>d_exit := Some EXIT_FAILURE\<rparr>)"

definition point_d_main :: "nat \<Rightarrow> demo_state \<Rightarrow> demo_state" where "point_d_main limit = create_round False limit"
definition point_e_main :: "nat \<Rightarrow> demo_state \<Rightarrow> demo_state" where "point_e_main limit = create_round False limit"
definition point_f_main :: "nat \<Rightarrow> demo_state \<Rightarrow> demo_state" where "point_f_main limit = create_round True limit"

text \<open>One statement of \<open>my_thread\<close>: the thread, whether it greets, and whether its \<open>pthread_detach\<close> failed.\<close>

definition point_d_my_thread :: "demo_thread \<Rightarrow> (demo_thread \<times> bool \<times> bool) option" where
  "point_d_my_thread t = (case d_pc t of
     D_print \<Rightarrow> Some (t\<lparr>d_pc := D_return\<rparr>, True, False)
   | D_return \<Rightarrow> Some (t\<lparr>d_pc := D_gone\<rparr>, False, False)
   | _ \<Rightarrow> None)"

definition point_e_my_thread :: "bool \<Rightarrow> demo_thread \<Rightarrow> (demo_thread \<times> bool \<times> bool) option" where
  "point_e_my_thread detach_ok t = (case d_pc t of
     D_print \<Rightarrow> Some (t\<lparr>d_pc := D_detach\<rparr>, True, False)
   | D_detach \<Rightarrow> Some (if detach_ok then t\<lparr>d_detached := True, d_pc := D_return\<rparr> else t\<lparr>d_pc := D_gone\<rparr>, False, \<not> detach_ok)
   | D_return \<Rightarrow> Some (t\<lparr>d_pc := D_gone\<rparr>, False, False)
   | D_gone \<Rightarrow> None)"

definition point_f_my_thread :: "demo_thread \<Rightarrow> (demo_thread \<times> bool \<times> bool) option" where
  "point_f_my_thread t = point_d_my_thread t"

text \<open>\<open>signal_callback_handler\<close> of \<open>thread_point_f.c\<close>, which is installed for \<open>SIGINT\<close> and \<open>SIGSEGV\<close>, destroys the attribute and exits with the number of the signal.\<close>

definition point_f_handler :: "nat \<Rightarrow> demo_state \<Rightarrow> demo_state" where
  "point_f_handler sig_num s = s\<lparr>d_exit := Some sig_num\<rparr>"

fun demo_main :: "demo \<Rightarrow> nat \<Rightarrow> demo_state \<Rightarrow> demo_state" where
  "demo_main Point_d limit s = point_d_main limit s"
| "demo_main Point_e limit s = point_e_main limit s"
| "demo_main Point_f limit s = point_f_main limit s"

fun demo_my_thread :: "demo \<Rightarrow> bool \<Rightarrow> demo_thread \<Rightarrow> (demo_thread \<times> bool \<times> bool) option" where
  "demo_my_thread Point_d ok t = point_d_my_thread t"
| "demo_my_thread Point_e ok t = point_e_my_thread ok t"
| "demo_my_thread Point_f ok t = point_f_my_thread t"

text \<open>What can happen: a round of \<open>main\<close>, a statement of a thread with the success of \<open>pthread_detach\<close>, a signal.\<close>

datatype demo_event = D_main | D_thread nat bool | D_signal nat

definition demo_step :: "demo \<Rightarrow> nat \<Rightarrow> demo_event \<Rightarrow> demo_state \<Rightarrow> demo_state option" where
  "demo_step p limit w s = (if d_exit s \<noteq> None then None
     else (case w of D_main \<Rightarrow> Some (demo_main p limit s)
       | D_thread i ok \<Rightarrow> if i < length (d_threads s) then map_option (\<lambda>(t, hello, failed).
             s\<lparr>d_threads := (d_threads s)[i := t], d_hellos := d_hellos s + of_bool hello, d_undetached := d_undetached s + of_bool failed\<rparr>)
             (demo_my_thread p ok (d_threads s ! i))
           else None
       | D_signal n \<Rightarrow> if p = Point_f \<and> (n = 2 \<or> n = 11) then Some (point_f_handler n s) else None))"

definition demo_init :: demo_state where
  "demo_init = \<lparr>d_threads = [], d_exit = None, d_hellos = 0, d_undetached = 0\<rparr>"

lemmas demo_defs = demo_step_def point_d_main_def point_e_main_def point_f_main_def create_round_def point_f_handler_def EXIT_FAILURE_def
lemmas demo_thread_defs = point_d_my_thread_def point_e_my_thread_def point_f_my_thread_def

text \<open>A step of thread number \<open>i\<close>, spelt out.\<close>

lemma demo_step_thread:
  assumes "demo_step p limit (D_thread i ok) s = Some s'"
  obtains t hello failed where "i < length (d_threads s)" "d_exit s = None" "demo_my_thread p ok (d_threads s ! i) = Some (t, hello, failed)"
    "s' = s\<lparr>d_threads := (d_threads s)[i := t], d_hellos := d_hellos s + of_bool hello, d_undetached := d_undetached s + of_bool failed\<rparr>"
  using assms by (auto simp: demo_step_def split: if_splits)

text \<open>Without \<open>pthread_detach\<close> no thread ever gives its descriptor back.\<close>

definition joinable_inv :: "nat \<Rightarrow> demo_state \<Rightarrow> bool" where
  "joinable_inv limit s \<longleftrightarrow> (\<forall>t \<in> set (d_threads s). \<not> d_detached t) \<and> length (d_threads s) \<le> limit \<and>
     (d_exit s = None \<or> d_exit s = Some EXIT_FAILURE \<and> length (d_threads s) = limit)"

lemma joinable_descriptors: "joinable_inv limit s \<Longrightarrow> descriptors s = length (d_threads s)"
  by (auto simp: joinable_inv_def descriptors_def keeps_descriptor_def)

lemma joinable_step:
  assumes "joinable_inv limit s" and "demo_step Point_d limit w s = Some s'"
  shows "joinable_inv limit s'"
proof (cases w)
  case D_main
  with assms joinable_descriptors [OF assms(1)] show ?thesis
    by (auto simp: demo_defs joinable_inv_def split: if_splits)
next
  case (D_thread i ok)
  with assms(2) obtain t hello failed where i: "i < length (d_threads s)" "d_exit s = None"
    "demo_my_thread Point_d ok (d_threads s ! i) = Some (t, hello, failed)"
    "s' = s\<lparr>d_threads := (d_threads s)[i := t], d_hellos := d_hellos s + of_bool hello, d_undetached := d_undetached s + of_bool failed\<rparr>"
    by (auto elim: demo_step_thread)
  moreover have "\<not> d_detached (d_threads s ! i)" using assms(1) i(1) by (simp add: joinable_inv_def)
  ultimately have "\<not> d_detached t" by (auto simp: demo_thread_defs split: demo_point.splits)
  with assms(1) i show ?thesis using set_update_subset_insert by (fastforce simp: joinable_inv_def)
next
  case (D_signal n)
  with assms show ?thesis by (simp add: demo_step_def split: if_splits)
qed

interpretation joinable: kept "demo_step Point_d limit" "joinable_inv limit" for limit
  by unfold_locales (rule joinable_step)

text \<open>
  Threads that detach themselves or are detached from the start: a terminated one has given its descriptor back, unless its \<open>pthread_detach\<close> failed.
\<close>

abbreviation stuck :: "demo_thread \<Rightarrow> bool" where
  "stuck t \<equiv> d_pc t = D_gone \<and> \<not> d_detached t"

abbreviation running :: "demo_state \<Rightarrow> nat" where
  "running s \<equiv> length (filter (\<lambda>t. d_pc t \<noteq> D_gone) (d_threads s))"

definition detach_point :: "demo \<Rightarrow> demo_thread \<Rightarrow> bool" where
  "detach_point p t \<longleftrightarrow> (d_pc t = D_return \<or> p = Point_f \<longrightarrow> d_detached t) \<and> (p = Point_e \<and> (d_pc t = D_print \<or> d_pc t = D_detach) \<longrightarrow> \<not> d_detached t)"

definition detached_inv :: "demo \<Rightarrow> nat \<Rightarrow> demo_state \<Rightarrow> bool" where
  "detached_inv p limit s \<longleftrightarrow> (\<forall>t \<in> set (d_threads s). detach_point p t) \<and>
     length (filter stuck (d_threads s)) = d_undetached s \<and>
     (d_exit s = Some EXIT_FAILURE \<longrightarrow> limit \<le> running s + d_undetached s)"

lemma descriptors_split: "descriptors s = running s + length (filter stuck (d_threads s))"
proof -
  have "length (filter keeps_descriptor ts) = length (filter (\<lambda>t. d_pc t \<noteq> D_gone) ts) + length (filter stuck ts)" for ts
    by (induction ts) (auto simp: keeps_descriptor_def)
  then show ?thesis by (simp add: descriptors_def)
qed

lemma detached_step:
  assumes "p \<noteq> Point_d \<and> detached_inv p limit s" and "demo_step p limit w s = Some s'"
  shows "p \<noteq> Point_d \<and> detached_inv p limit s'"
proof (cases w)
  case D_main
  moreover have "p = Point_e \<or> p = Point_f" using assms(1) by (cases p) auto
  ultimately show ?thesis using assms descriptors_split [of s]
    by (auto simp: demo_defs detached_inv_def detach_point_def split: if_splits)
next
  case (D_thread i ok)
  with assms(2) obtain t hello failed where i: "i < length (d_threads s)" "d_exit s = None"
    "demo_my_thread p ok (d_threads s ! i) = Some (t, hello, failed)"
    "s' = s\<lparr>d_threads := (d_threads s)[i := t], d_hellos := d_hellos s + of_bool hello, d_undetached := d_undetached s + of_bool failed\<rparr>"
    by (auto elim: demo_step_thread)
  have old: "detach_point p (d_threads s ! i)"
    using assms(1) i(1) by (simp add: detached_inv_def)
  have "p = Point_e \<or> p = Point_f" using assms(1) by (cases p) auto
  with i(3) old have new: "detach_point p t" and "\<not> stuck (d_threads s ! i)" and "stuck t \<longleftrightarrow> failed"
    by (auto simp: demo_thread_defs detach_point_def split: demo_point.splits if_splits)
  with length_filter_update [OF i(1), of stuck t] assms(1) have "length (filter stuck (d_threads s')) = d_undetached s'"
    by (auto simp: i(4) detached_inv_def)
  moreover have "\<forall>t \<in> set (d_threads s'). detach_point p t"
    using assms(1) new set_update_subset_insert [of "d_threads s" i t] by (auto simp: i(4) detached_inv_def)
  ultimately show ?thesis using assms(1) i(2,4) by (simp add: detached_inv_def)
next
  case (D_signal n)
  with assms show ?thesis by (auto simp: demo_defs detached_inv_def split: if_splits)
qed

interpretation detached: kept "demo_step p limit" "\<lambda>s. p \<noteq> Point_d \<and> detached_inv p limit s" for p limit
  by unfold_locales (rule detached_step)

lemma detached_round:
  assumes "p \<noteq> Point_d" and "0 < limit" and "descriptors s = 0" and "d_exit s = None"
  shows "\<exists>s'. steps (demo_step p limit) s s' \<and> length (d_threads s') = Suc (length (d_threads s)) \<and> descriptors s' = 0 \<and>
    d_exit s' = None \<and> d_hellos s' = Suc (d_hellos s)"
proof -
  let ?n = "length (d_threads s)"
  let ?ts = "D_main # replicate (if p = Point_e then 3 else 2) (D_thread ?n True)"
  let ?s' = "s\<lparr>d_threads := d_threads s @ [\<lparr>d_pc = D_gone, d_detached = True\<rparr>], d_hellos := d_hellos s + 1\<rparr>"
  have "p = Point_e \<or> p = Point_f" using assms(1) by (cases p) auto
  then have "run (demo_step p limit) ?ts s = Some ?s'"
    using assms by (auto simp: demo_defs demo_thread_defs replicate_num)
  then have "steps (demo_step p limit) s ?s'" by (rule run_steps)
  moreover have "descriptors ?s' = 0" using assms(3) by (simp add: descriptors_def keeps_descriptor_def)
  ultimately show ?thesis using assms(4) by (intro exI [of _ ?s']) simp
qed

section \<open>The value of a joined thread\<close>

text \<open>\<open>my_thread\<close> of \<open>thread_point_b.c\<close>: the value it passes to \<open>pthread_exit\<close> and the memory.\<close>

definition value_my_thread :: "addr option \<Rightarrow> c_int heap \<Rightarrow> ptr \<times> c_int heap" where
  "value_my_thread malloc h = (case malloc of None \<Rightarrow> (None, h) | Some a \<Rightarrow> (Some a, h(a \<mapsto> 42)))"

text \<open>\<open>main\<close> of \<open>thread_point_b.c\<close>: exit status, what is printed, memory.\<close>

definition value_main :: "c_int \<Rightarrow> addr option \<Rightarrow> c_int \<Rightarrow> c_int heap \<Rightarrow> fault + nat \<times> c_int list \<times> c_int heap" where
  "value_main create_err malloc join_err h = (if create_err \<noteq> 0 then Inr (1, [], h)
     else (case value_my_thread malloc h of (ret_val, h1) \<Rightarrow>
       if join_err \<noteq> 0 then Inr (1, [], h1)
       else fbind (load h1 ret_val) (\<lambda>v. fbind (free_cell h1 ret_val) (\<lambda>h2. Inr (0, [v], h2)))))"

section \<open>Properties\<close>

text \<open>
  The loop of \<open>thread_point_d.c\<close> comes to an end: whatever the interleaving, at most \<open>limit\<close> threads are created, although all of them may have terminated
  long ago; when \<open>limit\<close> threads were created the next round ends the program with a failure, and it ends in no other way.
\<close>

theorem unjoined_threads_run_out:
  assumes "steps (demo_step Point_d limit) demo_init s"
  shows "length (d_threads s) \<le> limit \<and> (d_exit s \<noteq> None \<longrightarrow> length (d_threads s) = limit) \<and>
    (d_exit s = None \<longrightarrow> demo_step Point_d limit D_main s = Some (if length (d_threads s) = limit then s\<lparr>d_exit := Some EXIT_FAILURE\<rparr>
      else s\<lparr>d_threads := d_threads s @ [\<lparr>d_pc = D_print, d_detached = False\<rparr>]\<rparr>))"
proof -
  have "joinable_inv limit demo_init" by (simp add: joinable_inv_def demo_init_def)
  with joinable.steps_inv [OF assms] have inv: "joinable_inv limit s" by blast
  with joinable_descriptors [OF inv] show ?thesis by (auto simp: joinable_inv_def demo_defs)
qed

theorem unjoined_threads_run_out_witness:
  "\<exists>s. run (demo_step Point_d 2) [D_main, D_thread 0 True, D_thread 0 True, D_main, D_thread 1 True, D_thread 1 True] demo_init = Some s \<and>
    (\<forall>t \<in> set (d_threads s). d_pc t = D_gone) \<and> demo_step Point_d 2 D_main s = Some (s\<lparr>d_exit := Some 1\<rparr>)"
proof -
  have "\<exists>s. run (demo_step Point_d 2) [D_main, D_thread 0 True, D_thread 0 True, D_main, D_thread 1 True, D_thread 1 True] demo_init = Some s \<and>
    (\<forall>t \<in> set (d_threads s). d_pc t = D_gone) \<and> length (d_threads s) = 2 \<and> d_exit s = None"
    by (simp add: demo_defs demo_thread_defs demo_init_def descriptors_def keeps_descriptor_def)
  then obtain s where s: "run (demo_step Point_d 2) [D_main, D_thread 0 True, D_thread 0 True, D_main, D_thread 1 True, D_thread 1 True] demo_init = Some s"
    "\<forall>t \<in> set (d_threads s). d_pc t = D_gone" "length (d_threads s) = 2" "d_exit s = None" by blast
  from unjoined_threads_run_out [OF run_steps [OF s(1)]] s show ?thesis
    by (intro exI [of _ s]) (simp add: EXIT_FAILURE_def del: run.simps)
qed

text \<open>
  C26. Detaching the threads lifts the bound: with at least one descriptor \<open>thread_point_e.c\<close> and \<open>thread_point_f.c\<close> can create any number of threads one after the other and have all
  descriptors back; whatever happens, they end with a failure only when \<open>limit\<close> threads have not yet terminated or could not be detached.
\<close>

theorem detached_threads_go_on:
  assumes "p \<noteq> Point_d" and "0 < limit"
  shows "(\<forall>n. \<exists>s. steps (demo_step p limit) demo_init s \<and> length (d_threads s) = n \<and> d_hellos s = n \<and> d_exit s = None \<and> descriptors s = 0) \<and>
    (\<forall>s. steps (demo_step p limit) demo_init s \<and> d_exit s = Some EXIT_FAILURE \<longrightarrow>
       limit \<le> length (filter (\<lambda>t. d_pc t \<noteq> D_gone) (d_threads s)) + d_undetached s)"
proof (intro conjI allI impI)
  fix n
  show "\<exists>s. steps (demo_step p limit) demo_init s \<and> length (d_threads s) = n \<and> d_hellos s = n \<and> d_exit s = None \<and> descriptors s = 0"
  proof (induction n)
    case 0
    have "descriptors demo_init = 0" by (simp add: descriptors_def demo_init_def)
    then show ?case by (intro exI [of _ demo_init]) (simp add: steps_refl, simp add: demo_init_def)
  next
    case (Suc n)
    then obtain s where s: "steps (demo_step p limit) demo_init s" "length (d_threads s) = n" "d_hellos s = n" "d_exit s = None" "descriptors s = 0"
      by blast
    from detached_round [OF assms s(5,4)] s(2,3) obtain s' where "steps (demo_step p limit) s s'" "length (d_threads s') = Suc n"
      "descriptors s' = 0" "d_exit s' = None" "d_hellos s' = Suc n" by auto
    with steps_trans [OF _ s(1)] show ?case by blast
  qed
next
  fix s
  assume s: "steps (demo_step p limit) demo_init s \<and> d_exit s = Some EXIT_FAILURE"
  have "p \<noteq> Point_d \<and> detached_inv p limit demo_init" using assms(1) by (simp add: detached_inv_def demo_init_def)
  with detached.steps_inv [OF conjunct1 [OF s]] have "detached_inv p limit s" by blast
  with s show "limit \<le> length (filter (\<lambda>t. d_pc t \<noteq> D_gone) (d_threads s)) + d_undetached s" by (simp add: detached_inv_def)
qed

theorem detached_threads_go_on_witness:
  "\<exists>s. steps (demo_step Point_f 1) demo_init s \<and> length (d_threads s) = 1000 \<and> d_exit s = None"
  using detached_threads_go_on [of Point_f 1] by auto

text \<open>
  \<open>thread_point_b.c\<close>: \<open>main\<close> gets the number 42 through the joined thread, prints it and frees its memory; a failed \<open>malloc\<close> in the thread makes \<open>main\<close> dereference \<open>NULL\<close>.
\<close>

theorem joined_value:
  assumes "a \<notin> dom h"
  shows "value_main 0 (Some a) 0 h = Inr (0, [42], h) \<and> value_main 0 None 0 h = Inl NullDeref"
  using assms by (auto simp: value_main_def value_my_thread_def load_def domIff)

theorem joined_value_witness:
  "value_main 0 (Some 5) 0 Map.empty = Inr (0, [42], Map.empty)"
  using joined_value [of 5 Map.empty] by simp

end
