(* ===== verification/Thread_Cancel.thy ===== *)
theory Thread_Cancel
  imports Interleaving
begin

text \<open>
  Cancellation of threads in \<open>semestr2/Task1/Task1_4/thread_point_b.c\<close> and \<open>thread_point_c.c\<close>: a thread that never returns by itself, its clean-up handler, and \<open>main\<close>, which cancels
  and joins it. The calls of the library may fail; the code's reactions are part of the model. As documented, a cancellation takes effect at the next
  cancellation point (\<open>printf\<close>), or at once if the thread allows it, and runs the handlers that are pushed; so does \<open>pthread_exit\<close>.
\<close>

section \<open>The programs\<close>

datatype cancel_prog = Cancel_b | Cancel_c

text \<open>
  The statements of \<open>my_thread\<close>; the last one is repeated for ever. \<open>I_malloc\<close> stands for \<open>malloc\<close> and \<open>strcpy\<close>, \<open>I_check\<close> for the test of what \<open>pthread_setcanceltype\<close> returned.
\<close>

datatype cancel_stmt = I_malloc | I_push | I_async | I_print | I_check | I_count

definition point_b_my_thread :: "cancel_stmt list" where
  "point_b_my_thread = [I_push, I_async, I_print, I_check, I_count]"

definition point_c_my_thread :: "cancel_stmt list" where
  "point_c_my_thread = [I_malloc, I_push, I_print, I_print]"

fun cancel_my_thread :: "cancel_prog \<Rightarrow> cancel_stmt list" where
  "cancel_my_thread Cancel_b = point_b_my_thread"
| "cancel_my_thread Cancel_c = point_c_my_thread"

datatype cancel_main = K_create | K_cancel | K_join | K_report | K_exit nat

datatype thread_end = Canceled | Exited

text \<open>
  The thread: whether it is created, its next statement, a pending request, the type of cancellation, what \<open>pthread_setcanceltype\<close> returned, the arguments of the handlers
  that are pushed, the number of handlers that ran, how it ended; the allocated blocks; \<open>main\<close> and whether it has reported the cancellation.
\<close>

record cancel_state =
  c_created :: bool
  c_pc :: nat
  c_pending :: bool
  c_async :: bool
  c_err :: bool
  c_cleanup :: "ptr list"
  c_ran :: nat
  c_end :: "thread_end option"
  c_blocks :: "unit heap"
  c_main :: cancel_main
  c_reported :: bool
  c_failed :: "fault option"














section \<open>The invariant\<close>

text \<open>
  The handler is pushed before the first point at which the thread can end, so it runs exactly once; the string of \<open>thread_point_c.c\<close> at \<open>a\<close> stays allocated.
\<close>

definition thread_inv :: "cancel_prog \<Rightarrow> addr \<Rightarrow> unit heap \<Rightarrow> cancel_state \<Rightarrow> bool" where
  "thread_inv p a h s \<longleftrightarrow> c_failed s = None \<and> c_pc s < length (cancel_my_thread p) \<and>
     (c_end s \<noteq> None \<longrightarrow> c_cleanup s = [] \<and> c_ran s = 1 \<and> 2 \<le> c_pc s) \<and>
     (c_end s = None \<longrightarrow> c_ran s = 0 \<and> c_cleanup s = (if (if p = Cancel_b then 1 else 2) \<le> c_pc s then [None] else [])) \<and>
     (c_async s \<or> c_err s \<longleftrightarrow> p = Cancel_b \<and> 2 \<le> c_pc s) \<and> (c_err s \<longrightarrow> c_pc s < 4 \<and> \<not> c_async s) \<and>
     (c_end s = Some Exited \<longrightarrow> c_err s) \<and>
     c_blocks s = (if p = Cancel_c \<and> 1 \<le> c_pc s then h(a \<mapsto> ()) else h)"






lemma thread_inv_frame [simp]:
  "thread_inv p a h (s\<lparr>c_main := x\<rparr>) = thread_inv p a h s" "thread_inv p a h (s\<lparr>c_created := b\<rparr>) = thread_inv p a h s"
  "thread_inv p a h (s\<lparr>c_pending := b\<rparr>) = thread_inv p a h s" "thread_inv p a h (s\<lparr>c_reported := b\<rparr>) = thread_inv p a h s"
  by (simp_all add: thread_inv_def)






section \<open>Properties\<close>



end
