(* ===== verification/First_Threads.thy ===== *)
theory First_Threads
  imports Interleaving
begin

text \<open>
  The first programs with a thread: \<open>semestr2/Task1/Task1_1/thread_point_a.c\<close> and \<open>thread_point_c.c\<close>, which print greetings and addresses of variables, and \<open>Task1_3/thread_point_a.c\<close> and
  \<open>thread_point_b.c\<close>, which hand a structure to the thread. A function is the list of its statements; \<open>main\<close> and the thread interleave, and the process ends when \<open>main\<close>
  returns. The calls of the library may fail.
\<close>

section \<open>The programs\<close>

record arg_node =
  value_int :: c_int
  ptr_char :: string

datatype who = In_main | In_thread

text \<open>The variables whose addresses \<open>thread_point_c.c\<close> prints; every function has its own but the global one.\<close>

datatype variable = Local who | Static_local who | Const_local who | Global_value

datatype line = Hello who | Addresses "addr list" | Int_line c_int | Str_line string

text \<open>
  Statements: output, a field of the structure written or printed, \<open>pthread_attr_setdetachstate\<close>, \<open>pthread_create\<close>, \<open>pthread_join\<close> (and whether its failure ends the program) and
  \<open>return\<close>. The structure is reached through the pointer of the program.
\<close>

datatype act = Say line | Put_int c_int | Put_str string | Print_int | Print_str | Attr | Create | Join bool | Return nat

definition hello_my_thread :: "act list" where
  "hello_my_thread = [Say (Hello In_thread)]"

definition hello_main :: "act list" where
  "hello_main = [Say (Hello In_main), Create, Join False, Return 0]"

definition addresses_my_thread :: "(variable \<Rightarrow> addr) \<Rightarrow> act list" where
  "addresses_my_thread place = [Say (Hello In_thread),
     Say (Addresses (map place [Local In_thread, Static_local In_thread, Const_local In_thread, Global_value]))]"

definition addresses_main :: "(variable \<Rightarrow> addr) \<Rightarrow> act list" where
  "addresses_main place = [Say (Hello In_main),
     Say (Addresses (map place [Local In_main, Static_local In_main, Const_local In_main, Global_value])), Create, Join True, Return 0]"

definition node_a_my_thread :: "act list" where
  "node_a_my_thread = [Print_int, Print_str]"

definition node_a_main :: "act list" where
  "node_a_main = [Put_int 42, Put_str ''hello'', Say (Str_line ''hello ''), Create, Join True, Return 0]"

definition node_b_my_thread :: "act list" where
  "node_b_my_thread = [Print_int, Print_str, Say (Int_line 5)]"

definition node_b_main :: "act list" where
  "node_b_main = [Put_int 42, Put_str ''hello'', Attr, Create, Return 0]"

section \<open>Execution\<close>

record ft_state =
  ft_main :: "act list"
  ft_thread :: "act list option"
  ft_node :: ptr
  ft_heap :: "arg_node heap"
  ft_main_out :: "line list"
  ft_thread_out :: "line list"
  ft_exit :: "nat option"
  ft_fault :: "fault option"

text \<open>What a statement does to the structure and what it prints.\<close>

fun put :: "act \<Rightarrow> arg_node \<Rightarrow> arg_node" where
  "put (Put_int v) n = n\<lparr>value_int := v\<rparr>"
| "put (Put_str v) n = n\<lparr>ptr_char := v\<rparr>"
| "put _ n = n"

fun says :: "arg_node \<Rightarrow> act \<Rightarrow> line list" where
  "says n (Say l) = [l]"
| "says n Print_int = [Int_line (value_int n)]"
| "says n Print_str = [Str_line (ptr_char n)]"
| "says n _ = []"

fun uses_node :: "act \<Rightarrow> bool" where
  "uses_node (Put_int v) = True" | "uses_node (Put_str v) = True" | "uses_node Print_int = True" | "uses_node Print_str = True"
| "uses_node _ = False"

text \<open>The structure behind the pointer; a statement that does not use it never looks.\<close>

definition node_of :: "act \<Rightarrow> ft_state \<Rightarrow> fault + arg_node" where
  "node_of a s = (if uses_node a then load (ft_heap s) (ft_node s) else Inr \<lparr>value_int = 0, ptr_char = []\<rparr>)"

definition written :: "act \<Rightarrow> arg_node \<Rightarrow> ft_state \<Rightarrow> arg_node heap" where
  "written a n s = (if uses_node a then (ft_heap s)(the (ft_node s) \<mapsto> put a n) else ft_heap s)"

text \<open>One statement of \<open>main\<close>, the success of its call given, and one of the thread.\<close>

fun main_act :: "act list \<Rightarrow> bool \<Rightarrow> act \<Rightarrow> ft_state \<Rightarrow> ft_state option" where
  "main_act T ok Attr s = Some (if ok then s else s\<lparr>ft_exit := Some 1\<rparr>)"
| "main_act T ok Create s = Some (if ok then s\<lparr>ft_thread := Some T\<rparr> else s\<lparr>ft_exit := Some 1\<rparr>)"
| "main_act T ok (Join ends) s = (if ok then (if ft_thread s = Some [] then Some s else None)
     else Some (if ends then s\<lparr>ft_exit := Some 1\<rparr> else s))"
| "main_act T ok (Return n) s = Some (s\<lparr>ft_exit := Some n\<rparr>)"
| "main_act T ok a s = Some (case node_of a s of Inl f \<Rightarrow> s\<lparr>ft_fault := Some f\<rparr>
     | Inr n \<Rightarrow> s\<lparr>ft_heap := written a n s, ft_main_out := ft_main_out s @ says n a\<rparr>)"

definition thread_act :: "act \<Rightarrow> ft_state \<Rightarrow> ft_state" where
  "thread_act a s = (case node_of a s of Inl f \<Rightarrow> s\<lparr>ft_fault := Some f\<rparr>
     | Inr n \<Rightarrow> s\<lparr>ft_thread_out := ft_thread_out s @ says n a\<rparr>)"

datatype ft_event = Main bool | Thread

definition ft_step :: "act list \<Rightarrow> ft_event \<Rightarrow> ft_state \<Rightarrow> ft_state option" where
  "ft_step T ev s = (if ft_fault s \<noteq> None \<or> ft_exit s \<noteq> None then None else case ev of
     Main ok \<Rightarrow> (case ft_main s of [] \<Rightarrow> None | a # M \<Rightarrow> main_act T ok a (s\<lparr>ft_main := M\<rparr>))
   | Thread \<Rightarrow> (case ft_thread s of Some (a # c) \<Rightarrow> Some (thread_act a (s\<lparr>ft_thread := Some c\<rparr>)) | _ \<Rightarrow> None))"

definition ft_start :: "act list \<Rightarrow> ptr \<Rightarrow> arg_node heap \<Rightarrow> ft_state" where
  "ft_start M p h = \<lparr>ft_main = M, ft_thread = None, ft_node = p, ft_heap = h, ft_main_out = [], ft_thread_out = [], ft_exit = None, ft_fault = None\<rparr>"

section \<open>Programs that prepare, create and wait\<close>

text \<open>
  All four have this shape: statements \<open>pre\<close> that do not start anything, \<open>pthread_create\<close>, and \<open>post\<close> with \<open>pthread_join\<close> and \<open>return\<close> only; the thread writes nothing. The
  pointer is good at \<open>a\<close>.
\<close>

definition prepares :: "act \<Rightarrow> bool" where
  "prepares x \<longleftrightarrow> (case x of Say l \<Rightarrow> True | Put_int v \<Rightarrow> True | Put_str v \<Rightarrow> True | Attr \<Rightarrow> True | _ \<Rightarrow> False)"

definition waits :: "act \<Rightarrow> bool" where
  "waits x \<longleftrightarrow> (case x of Join e \<Rightarrow> True | Return n \<Rightarrow> True | _ \<Rightarrow> False)"

definition prints :: "act \<Rightarrow> bool" where
  "prints x \<longleftrightarrow> (case x of Say l \<Rightarrow> True | Print_int \<Rightarrow> True | Print_str \<Rightarrow> True | _ \<Rightarrow> False)"

definition thread_lines :: "act list \<Rightarrow> arg_node \<Rightarrow> line list" where
  "thread_lines T n = concat (map (says n) T)"

text \<open>Before the creation, and after it; \<open>n\<close> is the structure as the thread finds it.\<close>

definition before_inv :: "act list \<Rightarrow> act list \<Rightarrow> addr \<Rightarrow> arg_node \<Rightarrow> ft_state \<Rightarrow> bool" where
  "before_inv pre post a n s \<longleftrightarrow> ft_thread s = None \<and> ft_thread_out s = [] \<and> ft_exit s \<noteq> Some 0 \<and>
     (ft_exit s = None \<longrightarrow> (\<exists>us vs m. pre = us @ vs \<and> ft_main s = vs @ Create # post \<and>
        ft_heap s a = Some m \<and> fold put vs m = n))"

definition after_inv :: "act list \<Rightarrow> act list \<Rightarrow> addr \<Rightarrow> arg_node \<Rightarrow> ft_state \<Rightarrow> bool" where
  "after_inv post T a n s \<longleftrightarrow> ft_heap s a = Some n \<and>
     (\<exists>us c. T = us @ c \<and> ft_thread s = Some c \<and> ft_thread_out s = thread_lines us n) \<and>
     (\<exists>ws. post = ws @ ft_main s \<and> (ft_exit s = None \<or> ft_exit s = Some 0 \<longrightarrow> Join True \<in> set ws \<longrightarrow> ft_thread s = Some []) \<and>
        (\<forall>r. ft_exit s = None \<longrightarrow> Return r \<notin> set ws) \<and> (ft_exit s = Some 0 \<longrightarrow> Return 0 \<in> set ws))"

definition ft_inv :: "act list \<Rightarrow> act list \<Rightarrow> act list \<Rightarrow> addr \<Rightarrow> arg_node \<Rightarrow> ft_state \<Rightarrow> bool" where
  "ft_inv pre post T a n s \<longleftrightarrow> list_all prepares pre \<and> list_all waits post \<and> list_all prints T \<and> ft_node s = Some a \<and> ft_fault s = None \<and>
     (before_inv pre post a n s \<or> after_inv post T a n s)"

lemma before_step:
  assumes "before_inv pre post a n s" and "list_all prepares pre" and "ft_node s = Some a" and "ft_fault s = None"
    and "ft_step T ev s = Some s'"
  shows "ft_node s' = Some a \<and> ft_fault s' = None \<and> (before_inv pre post a n s' \<or> after_inv post T a n s')"
proof -
  from assms(1,5) obtain us vs m where s: "ft_thread s = None" "ft_thread_out s = []" "ft_exit s = None" "pre = us @ vs"
    "ft_main s = vs @ Create # post" "ft_heap s a = Some m" "fold put vs m = n"
    by (auto simp: before_inv_def ft_step_def split: if_splits)
  from assms(5) s(1) obtain ok where ev: "ev = Main ok" by (cases ev) (auto simp: ft_step_def split: if_splits)
  show ?thesis
  proof (cases vs)
    case Nil
    with assms(3-5) s ev show ?thesis
      by (cases ok) (auto simp: ft_step_def before_inv_def after_inv_def thread_lines_def)
  next
    case (Cons x ws)
    with assms(2) s(4) have "prepares x" by simp
    with Cons assms(3-5) s ev have "ft_node s' = Some a \<and> ft_fault s' = None \<and> ft_thread s' = None \<and> ft_thread_out s' = [] \<and> ft_exit s' \<noteq> Some 0 \<and>
      ft_main s' = ws @ Create # post \<and> ft_heap s' a = Some (put x m)"
      by (cases x; cases ok) (auto simp: ft_step_def prepares_def node_of_def written_def load_def)
    with Cons s(4,7) have "before_inv pre post a n s'"
      unfolding before_inv_def by (intro conjI impI exI [of _ "us @ [x]"] exI [of _ ws] exI [of _ "put x m"]) auto
    with \<open>ft_node s' = Some a \<and> _\<close> show ?thesis by blast
  qed
qed

lemma after_step:
  assumes "after_inv post T a n s" and "list_all waits post" and "list_all prints T" and "ft_node s = Some a" and "ft_fault s = None"
    and "ft_step T ev s = Some s'"
  shows "ft_node s' = Some a \<and> ft_fault s' = None \<and> after_inv post T a n s'"
proof -
  from assms(1,6) obtain us c ws where s: "ft_heap s a = Some n" "T = us @ c" "ft_thread s = Some c" "ft_thread_out s = thread_lines us n"
    "post = ws @ ft_main s" "ft_exit s = None" "Join True \<in> set ws \<longrightarrow> c = []" "\<forall>r. Return r \<notin> set ws"
    by (auto simp: after_inv_def ft_step_def split: if_splits)
  show ?thesis
  proof (cases ev)
    case Thread
    with assms(6) s(3) obtain x c' where c: "c = x # c'" and s': "s' = thread_act x (s\<lparr>ft_thread := Some c'\<rparr>)"
      by (auto simp: ft_step_def split: if_splits list.splits)
    have "prints x" using assms(3) s(2) c by simp
    with s(1) assms(4) have s'': "s' = s\<lparr>ft_thread := Some c', ft_thread_out := ft_thread_out s @ says n x\<rparr>"
      unfolding s' by (cases x) (auto simp: prints_def thread_act_def node_of_def load_def)
    have "\<exists>us c. T = us @ c \<and> ft_thread s' = Some c \<and> ft_thread_out s' = thread_lines us n"
      using s(2,4) c s'' by (intro exI [of _ "us @ [x]"] exI [of _ c']) (simp add: thread_lines_def)
    then show ?thesis using s c s'' assms(4,5) by (auto simp: after_inv_def)
  next
    case (Main ok)
    with assms(6) s(6) obtain x M where x: "ft_main s = x # M" and s': "main_act T ok x (s\<lparr>ft_main := M\<rparr>) = Some s'"
      by (auto simp: ft_step_def split: if_splits list.splits)
    from assms(2) s(5) x have "waits x" by simp
    with s' s(3,6) have same: "ft_heap s' = ft_heap s" "ft_thread s' = Some c" "ft_thread_out s' = ft_thread_out s" "ft_node s' = ft_node s"
      "ft_fault s' = ft_fault s" "ft_main s' = M" "x = Join True \<and> ft_exit s' \<noteq> Some 1 \<longrightarrow> c = []"
      "ft_exit s' = None \<longrightarrow> (\<forall>r. x \<noteq> Return r)" "ft_exit s' = Some 0 \<longrightarrow> x = Return 0"
      by (cases x; cases ok; auto simp: waits_def split: if_splits)+
    moreover have "post = (ws @ [x]) @ M" using s(5) x by simp
    ultimately have "\<exists>ws. post = ws @ ft_main s' \<and> (ft_exit s' = None \<or> ft_exit s' = Some 0 \<longrightarrow> Join True \<in> set ws \<longrightarrow> ft_thread s' = Some []) \<and>
      (\<forall>r. ft_exit s' = None \<longrightarrow> Return r \<notin> set ws) \<and> (ft_exit s' = Some 0 \<longrightarrow> Return 0 \<in> set ws)"
      using s(7,8) by (intro exI [of _ "ws @ [x]"]) auto
    moreover have "\<exists>us c. T = us @ c \<and> ft_thread s' = Some c \<and> ft_thread_out s' = thread_lines us n"
      using s(2,4) same(2,3) by auto
    ultimately show ?thesis using s(1) same assms(4,5) unfolding after_inv_def by simp
  qed
qed

interpretation first_threads: kept "ft_step T" "ft_inv pre post T a n" for pre post T a n
proof unfold_locales
  fix s ev s'
  assume "ft_inv pre post T a n s" and "ft_step T ev s = Some s'"
  with before_step [of pre post a n s T ev s'] after_step [of post T a n s ev s'] show "ft_inv pre post T a n s'"
    by (auto simp: ft_inv_def)
qed

section \<open>What the programs print\<close>

text \<open>
  Nothing goes wrong, the thread prints its lines in order, from the structure as \<open>main\<close> has prepared it; and when \<open>main\<close> returns 0 behind a \<open>pthread_join\<close> whose failure ends the
  program, it has printed all of them.
\<close>

lemma thread_output:
  assumes "steps (ft_step T) (ft_start (pre @ Create # post) (Some a) h) s" and "list_all prepares pre" and "list_all waits post"
    and "list_all prints T" and "h a = Some m"
  shows "ft_fault s = None \<and> (\<exists>us vs. T = us @ vs \<and> ft_thread_out s = thread_lines us (fold put pre m)) \<and>
    (post = [Join True, Return 0] \<and> ft_exit s = Some 0 \<longrightarrow> ft_thread_out s = thread_lines T (fold put pre m))"
proof -
  have "ft_inv pre post T a (fold put pre m) (ft_start (pre @ Create # post) (Some a) h)"
    using assms(2-5) by (auto simp: ft_inv_def before_inv_def ft_start_def)
  with first_threads.steps_inv [OF assms(1)] have "ft_inv pre post T a (fold put pre m) s" by blast
  then have "before_inv pre post a (fold put pre m) s \<or> after_inv post T a (fold put pre m) s" and f: "ft_fault s = None"
    by (simp_all add: ft_inv_def)
  then show ?thesis
  proof (elim disjE)
    assume "before_inv pre post a (fold put pre m) s"
    then have "ft_thread_out s = thread_lines [] (fold put pre m)" "ft_exit s \<noteq> Some 0" by (simp_all add: before_inv_def thread_lines_def)
    with f show ?thesis by (metis append_Nil)
  next
    assume "after_inv post T a (fold put pre m) s"
    then obtain us c ws where s: "T = us @ c" "ft_thread s = Some c" "ft_thread_out s = thread_lines us (fold put pre m)" "post = ws @ ft_main s"
      "ft_exit s = Some 0 \<longrightarrow> Join True \<in> set ws \<longrightarrow> c = []" "ft_exit s = Some 0 \<longrightarrow> Return 0 \<in> set ws"
      by (auto simp: after_inv_def)
    have "c = []" if "post = [Join True, Return 0]" "ft_exit s = Some 0"
      using that s(4-6) by (cases ws) (auto simp: append_eq_Cons_conv)
    with s f show ?thesis by auto
  qed
qed

text \<open>
  \<open>Task1_3/thread_point_a.c\<close>: the structure is a local variable of \<open>main\<close>, which joins the thread before it returns. In every interleaving the thread reads what \<open>main\<close> stored, and when
  \<open>main\<close> returns with success both fields are printed.
\<close>

theorem node_argument_delivered:
  assumes "steps (ft_step node_a_my_thread) (ft_start node_a_main (Some a) (h(a \<mapsto> m))) s"
  shows "ft_fault s = None \<and> ft_thread_out s \<in> {[], [Int_line 42], [Int_line 42, Str_line ''hello'']} \<and>
    (ft_exit s = Some 0 \<longrightarrow> ft_thread_out s = [Int_line 42, Str_line ''hello''])"
proof -
  let ?pre = "[Put_int 42, Put_str ''hello'', Say (Str_line ''hello '')]"
  have "ft_fault s = None \<and> (\<exists>us vs. node_a_my_thread = us @ vs \<and> ft_thread_out s = thread_lines us (fold put ?pre m)) \<and>
    ([Join True, Return 0] = [Join True, Return 0] \<and> ft_exit s = Some 0 \<longrightarrow> ft_thread_out s = thread_lines node_a_my_thread (fold put ?pre m))"
    by (rule thread_output [of _ _ _ a "h(a \<mapsto> m)"])
      (use assms in \<open>simp_all add: node_a_main_def node_a_my_thread_def prepares_def waits_def prints_def\<close>)
  then show ?thesis by (auto simp: thread_lines_def node_a_my_thread_def Cons_eq_append_conv)
qed

text \<open>
  \<open>Task1_1/thread_point_c.c\<close>: when \<open>main\<close> returns with success the thread has printed the address of the one global variable and three addresses that are not those of the variables
  of the same names in \<open>main\<close>.
\<close>

theorem addresses_differ:
  assumes "steps (ft_step (addresses_my_thread place)) (ft_start (addresses_main place) (Some a) (h(a \<mapsto> m))) s" and "inj place" and "ft_exit s = Some 0"
  shows "\<exists>l st c. ft_thread_out s = [Hello In_thread, Addresses [l, st, c, place Global_value]] \<and>
    {l, st, c} \<inter> place ` {Local In_main, Static_local In_main, Const_local In_main, Global_value} = {}"
proof -
  let ?pre = "[Say (Hello In_main), Say (Addresses (map place [Local In_main, Static_local In_main, Const_local In_main, Global_value]))]"
  have "ft_fault s = None \<and> (\<exists>us vs. addresses_my_thread place = us @ vs \<and> ft_thread_out s = thread_lines us (fold put ?pre m)) \<and>
    ([Join True, Return 0] = [Join True, Return 0] \<and> ft_exit s = Some 0 \<longrightarrow>
       ft_thread_out s = thread_lines (addresses_my_thread place) (fold put ?pre m))"
    by (rule thread_output [of _ _ _ a "h(a \<mapsto> m)"])
      (use assms(1) in \<open>simp_all add: addresses_main_def addresses_my_thread_def prepares_def waits_def prints_def\<close>)
  with assms(3) have "ft_thread_out s = [Hello In_thread,
      Addresses [place (Local In_thread), place (Static_local In_thread), place (Const_local In_thread), place Global_value]]"
    by (simp add: thread_lines_def addresses_my_thread_def)
  then show ?thesis using assms(2) by (auto simp: inj_eq)
qed

text \<open>
  \<open>Task1_3/thread_point_b.c\<close>: the pointer is not initialised. Unless it happens to be good the first store is a fault. If it is, nothing goes wrong, but nobody waits for the
  detached thread: the program can end before it has printed anything.
\<close>

theorem node_pointer_uninitialised:
  "(\<forall>p h. (\<forall>a. p = Some a \<longrightarrow> a \<notin> dom h) \<longrightarrow> (\<exists>s. ft_step node_b_my_thread (Main True) (ft_start node_b_main p h) = Some s \<and> ft_fault s \<noteq> None)) \<and>
   (\<forall>a h m s. steps (ft_step node_b_my_thread) (ft_start node_b_main (Some a) (h(a \<mapsto> m))) s \<longrightarrow> ft_fault s = None) \<and>
   (\<exists>s. run (ft_step node_b_my_thread) (replicate 5 (Main True)) (ft_start node_b_main (Some 3) [3 \<mapsto> \<lparr>value_int = 7, ptr_char = ''x''\<rparr>]) = Some s \<and>
      ft_exit s = Some 0 \<and> ft_thread_out s = [])"
proof (intro conjI allI impI)
  fix p :: ptr and h :: "arg_node heap"
  assume "\<forall>a. p = Some a \<longrightarrow> a \<notin> dom h"
  then show "\<exists>s. ft_step node_b_my_thread (Main True) (ft_start node_b_main p h) = Some s \<and> ft_fault s \<noteq> None"
    by (cases p) (auto simp: ft_step_def ft_start_def node_b_main_def node_of_def load_def)
next
  fix a h m s
  assume st: "steps (ft_step node_b_my_thread) (ft_start node_b_main (Some a) (h(a \<mapsto> m))) s"
  have "ft_fault s = None \<and> (\<exists>us vs. node_b_my_thread = us @ vs \<and> ft_thread_out s = thread_lines us (fold put [Put_int 42, Put_str ''hello'', Attr] m)) \<and>
    ([Return 0] = [Join True, Return 0] \<and> ft_exit s = Some 0 \<longrightarrow>
       ft_thread_out s = thread_lines node_b_my_thread (fold put [Put_int 42, Put_str ''hello'', Attr] m))"
    by (rule thread_output [of _ _ _ a "h(a \<mapsto> m)"])
      (use st in \<open>simp_all add: node_b_main_def node_b_my_thread_def prepares_def waits_def prints_def\<close>)
  then show "ft_fault s = None" by blast
next
  show "\<exists>s. run (ft_step node_b_my_thread) (replicate 5 (Main True)) (ft_start node_b_main (Some 3) [3 \<mapsto> \<lparr>value_int = 7, ptr_char = ''x''\<rparr>]) = Some s \<and>
      ft_exit s = Some 0 \<and> ft_thread_out s = []"
    by (simp add: replicate_num ft_step_def ft_start_def node_b_main_def node_of_def written_def load_def)
qed

text \<open>\<open>Task1_1/thread_point_a.c\<close>: the thread greets at most once.\<close>

lemma hello_thread_greets:
  assumes "steps (ft_step hello_my_thread) (ft_start hello_main (Some a) (h(a \<mapsto> m))) s"
  shows "ft_fault s = None \<and> ft_thread_out s \<in> {[], [Hello In_thread]}"
proof -
  have "ft_fault s = None \<and> (\<exists>us vs. hello_my_thread = us @ vs \<and> ft_thread_out s = thread_lines us (fold put [Say (Hello In_main)] m)) \<and>
    ([Join False, Return 0] = [Join True, Return 0] \<and> ft_exit s = Some 0 \<longrightarrow> ft_thread_out s = thread_lines hello_my_thread (fold put [Say (Hello In_main)] m))"
    by (rule thread_output [of _ _ _ a "h(a \<mapsto> m)"])
      (use assms in \<open>simp_all add: hello_main_def hello_my_thread_def prepares_def waits_def prints_def\<close>)
  then show ?thesis by (auto simp: thread_lines_def hello_my_thread_def Cons_eq_append_conv)
qed

end
