(* ===== verification/My_Thread.thy ===== *)
theory My_Thread
  imports Interleaving
begin

text \<open>
  Two small protocols between threads: the hand-made threads of \<open>semestr2/Task1/Task1_6/mythread_create.c\<close>, where \<open>my_thread_start_up\<close> and \<open>my_thread_join\<close> wait for each other on
  two flags, and \<open>semestr2/Task2/Task2_2/semafor/test.c\<close>, where one thread tries to unlock the mutex of another. The end of \<open>my_thread_create\<close>, behind its waiting loop, is
  not C (an \<open>if\<close> without a condition) and is left out, and so is \<open>main\<close>, which only calls it.
\<close>

section \<open>mythread\<close>

















section \<open>Unlocking another thread's mutex\<close>

text \<open>An error-checking mutex: its owner. \<open>pthread_mutex_unlock\<close> by another thread returns \<open>EPERM\<close> and does nothing.\<close>

datatype em_tid = Locker | Unlocker

definition em_lock :: "em_tid \<Rightarrow> em_tid option \<Rightarrow> (bool \<times> em_tid option) option" where
  "em_lock t owner = (case owner of None \<Rightarrow> Some (True, Some t) | Some u \<Rightarrow> if u = t then Some (False, owner) else None)"

definition em_unlock :: "em_tid \<Rightarrow> em_tid option \<Rightarrow> bool \<times> em_tid option" where
  "em_unlock t owner = (if owner = Some t then (True, None) else (False, owner))"

datatype locker_point = L_lock | L_sleep | L_done
datatype unlocker_point = U_unlock | U_print | U_done

text \<open>The mutex, the two threads, whether the unlocking succeeded, and whether success is reported.\<close>

record em_state =
  em_owner :: "em_tid option"
  em_locker :: locker_point
  em_unlocker :: unlocker_point
  em_released :: bool
  em_reported :: bool

text \<open>The functions \<open>lock\<close> and \<open>unlock\<close> of the program; neither looks at the result of its call.\<close>

definition lock_body :: "em_state \<Rightarrow> em_state option" where
  "lock_body s = (case em_locker s of
     L_lock \<Rightarrow> map_option (\<lambda>(ok, owner). s\<lparr>em_owner := owner, em_locker := L_sleep\<rparr>) (em_lock Locker (em_owner s))
   | L_sleep \<Rightarrow> Some (s\<lparr>em_locker := L_done\<rparr>)
   | L_done \<Rightarrow> None)"

definition unlock_body :: "em_state \<Rightarrow> em_state option" where
  "unlock_body s = (case em_unlocker s of
     U_unlock \<Rightarrow> (case em_unlock Unlocker (em_owner s) of (ok, owner) \<Rightarrow>
       Some (s\<lparr>em_owner := owner, em_released := ok, em_unlocker := U_print\<rparr>))
   | U_print \<Rightarrow> Some (s\<lparr>em_reported := True, em_unlocker := U_done\<rparr>)
   | U_done \<Rightarrow> None)"

fun em_step :: "em_tid \<Rightarrow> em_state \<Rightarrow> em_state option" where
  "em_step Locker s = lock_body s"
| "em_step Unlocker s = unlock_body s"

definition em_main :: "c_int \<Rightarrow> c_int \<Rightarrow> em_state option" where
  "em_main err_lock err_unlock = (if err_lock \<noteq> 0 \<or> err_unlock \<noteq> 0 then None
     else Some \<lparr>em_owner = None, em_locker = L_lock, em_unlocker = U_unlock, em_released = False, em_reported = False\<rparr>)"

definition em_inv :: "em_state \<Rightarrow> bool" where
  "em_inv s \<longleftrightarrow> \<not> em_released s \<and> em_owner s = (if em_locker s = L_lock then None else Some Locker) \<and>
     (em_reported s \<longleftrightarrow> em_unlocker s = U_done)"

definition em_final :: "em_state \<Rightarrow> bool" where
  "em_final s \<longleftrightarrow> em_locker s = L_done \<and> em_unlocker s = U_done"

definition em_rank :: "em_state \<Rightarrow> nat" where
  "em_rank s = (case em_locker s of L_lock \<Rightarrow> 2 | L_sleep \<Rightarrow> 1 | L_done \<Rightarrow> 0) +
     (case em_unlocker s of U_unlock \<Rightarrow> 2 | U_print \<Rightarrow> 1 | U_done \<Rightarrow> 0)"

lemmas em_code = lock_body_def unlock_body_def em_lock_def em_unlock_def

lemma em_inv_step: "em_inv s \<Longrightarrow> em_step t s = Some s' \<Longrightarrow> em_inv s'"
  by (cases t) (auto simp: em_code em_inv_def split: locker_point.splits unlocker_point.splits if_splits)

lemma em_nearer:
  assumes "em_inv s" and "\<not> em_final s"
  shows "\<exists>t s'. em_step t s = Some s' \<and> em_rank s' < em_rank s"
proof (cases "em_locker s = L_done")
  case True
  with assms show ?thesis
    by (intro exI [of _ Unlocker]) (cases "em_unlocker s"; auto simp: em_code em_inv_def em_final_def em_rank_def)
next
  case False
  with assms show ?thesis
    by (intro exI [of _ Locker]) (cases "em_locker s"; auto simp: em_code em_inv_def em_rank_def)
qed

interpretation errorcheck: finishing em_step em_inv em_final em_rank
  by unfold_locales (auto intro: em_inv_step em_nearer)

section \<open>Properties\<close>



text \<open>
  An error-checking mutex is not released by another thread: in every interleaving the call of \<open>unlock\<close> fails, once the mutex is locked it stays locked by its
  owner, and yet success is reported when both threads have ended.
\<close>

theorem unlock_by_other_thread_fails:
  assumes "em_main err_lock err_unlock = Some s0" and "steps em_step s0 s"
  shows "\<not> em_released s \<and> (em_locker s \<noteq> L_lock \<longrightarrow> em_owner s = Some Locker) \<and>
    (em_final s \<longrightarrow> em_reported s \<and> em_owner s = Some Locker) \<and> (\<exists>s'. steps em_step s s' \<and> em_final s')"
proof -
  from assms(1) have "em_inv s0" by (auto simp: em_main_def em_inv_def split: if_splits)
  with errorcheck.steps_inv [OF assms(2)] have inv: "em_inv s" by blast
  with errorcheck.can_finish [OF inv] show ?thesis by (auto simp: em_inv_def em_final_def)
qed

theorem unlock_by_other_thread_fails_witness:
  "\<exists>s0 s. em_main 0 0 = Some s0 \<and> run em_step [Locker, Unlocker, Unlocker, Locker] s0 = Some s \<and> em_final s \<and> em_reported s \<and> em_owner s = Some Locker"
proof -
  obtain s0 where s0: "em_main 0 0 = Some s0" by (simp add: em_main_def)
  then have "\<exists>s. run em_step [Locker, Unlocker, Unlocker, Locker] s0 = Some s \<and> em_final s"
    by (auto simp: em_main_def em_code em_final_def)
  then obtain s where s: "run em_step [Locker, Unlocker, Unlocker, Locker] s0 = Some s" "em_final s" by blast
  from unlock_by_other_thread_fails [OF s0 run_steps [OF s(1)]] s s0 show ?thesis
    by (intro exI [of _ s0] exI [of _ s]) (simp del: run.simps)
qed

end
