(* ===== verification/Signals.thy ===== *)
theory Signals
  imports Prelude Interleaving
begin

text \<open>
  The threads of \<open>semestr2/Task1/Task1_5/thread_point_a.c\<close> that block signals: \<open>block_all_signal\<close>, \<open>non_block_int_sig\<close> and \<open>non_block_quit_sig\<close>, each with the signals others
  send to it, interleaved. The masks, pending signals and dispositions are those of the manual of \<open>pthread_sigmask\<close>; the signals are those the file names. \<open>main\<close> does
  not compile and is left out.
\<close>

section \<open>The functions\<close>

datatype signal_t = SIGINT | SIGQUIT | SIGKILL

datatype sig_stmt = Fill | Block | Add signal_t | Unblock | Install signal_t | Sigwait | Sleep

definition block_all_signal :: "sig_stmt list" where
  "block_all_signal = [Fill, Block, Sleep]"

definition non_block_int_sig :: "sig_stmt list" where
  "non_block_int_sig = [Fill, Block, Add SIGINT, Unblock, Install SIGINT, Sleep]"

definition non_block_quit_sig :: "sig_stmt list" where
  "non_block_quit_sig = [Fill, Block, Add SIGQUIT, Install SIGQUIT, Sigwait, Sleep]"

section \<open>Signals\<close>

datatype process_end = Killed signal_t | Exit_failure

text \<open>
  The rest of the function, the mask of the thread, the set it fills (\<open>set_all_signal\<close>, \<open>set_all_sig\<close>, \<open>mask\<close>), the set that is not initialised (\<open>set_int_sig\<close>), the pending
  signals, the signals \<open>signal_handler\<close> was called with and the one \<open>sigwait\<close> stored; the signals that have a handler, and how the process ended.
\<close>

record sig_state =
  sg_code :: "sig_stmt list"
  sg_mask :: "signal_t set"
  sg_all :: "signal_t set"
  sg_int :: "signal_t set"
  sg_pending :: "signal_t set"
  sg_caught :: "signal_t list"
  sg_sig :: "signal_t option"
  sg_handlers :: "signal_t set"
  sg_ended :: "process_end option"

definition sig_start :: "sig_stmt list \<Rightarrow> signal_t set \<Rightarrow> sig_state" where
  "sig_start code junk = \<lparr>sg_code = code, sg_mask = {}, sg_all = {}, sg_int = junk, sg_pending = {}, sg_caught = [], sg_sig = None,
     sg_handlers = {}, sg_ended = None\<rparr>"

text \<open>
  One statement, with the success of the call it makes. \<open>Add\<close> goes to the set of the function it is in: \<open>set_int_sig\<close> for \<open>SIGINT\<close>, the full set for \<open>SIGQUIT\<close>, where the result is not
  tested. \<open>SIGKILL\<close> cannot be blocked.
\<close>

fun sig_exec :: "bool \<Rightarrow> sig_stmt \<Rightarrow> sig_state \<Rightarrow> sig_state option" where
  "sig_exec ok Fill s = Some (if ok then s\<lparr>sg_all := {SIGINT, SIGQUIT, SIGKILL}\<rparr> else s\<lparr>sg_ended := Some Exit_failure\<rparr>)"
| "sig_exec ok Block s = Some (if ok then s\<lparr>sg_mask := sg_mask s \<union> (sg_all s - {SIGKILL})\<rparr> else s\<lparr>sg_ended := Some Exit_failure\<rparr>)"
| "sig_exec ok (Add n) s = Some (if n = SIGINT then (if ok then s\<lparr>sg_int := insert n (sg_int s)\<rparr> else s\<lparr>sg_ended := Some Exit_failure\<rparr>)
     else s\<lparr>sg_all := insert n (sg_all s)\<rparr>)"
| "sig_exec ok Unblock s = Some (if ok then s\<lparr>sg_all := sg_mask s, sg_mask := sg_mask s - sg_int s\<rparr> else s\<lparr>sg_ended := Some Exit_failure\<rparr>)"
| "sig_exec ok (Install n) s = Some (s\<lparr>sg_handlers := insert n (sg_handlers s)\<rparr>)"
| "sig_exec ok Sigwait s = (if ok then None else Some (s\<lparr>sg_ended := Some Exit_failure\<rparr>))"
| "sig_exec ok Sleep s = Some s"

text \<open>\<open>signal_handler\<close> prints the number of the signal.\<close>

definition signal_handler :: "signal_t \<Rightarrow> sig_state \<Rightarrow> sig_state" where
  "signal_handler n s = s\<lparr>sg_caught := sg_caught s @ [n]\<rparr>"

text \<open>
  What happens: somebody sends a signal (\<open>pthread_kill\<close>), a pending signal that is not blocked is delivered, \<open>sigwait\<close> accepts a pending signal, or the thread executes a
  statement. The default action of the three signals ends the process.
\<close>

datatype sig_event = Send signal_t | Deliver signal_t | Accept signal_t | Exec bool

definition sig_step :: "sig_event \<Rightarrow> sig_state \<Rightarrow> sig_state option" where
  "sig_step ev s = (if sg_ended s \<noteq> None \<or> sg_code s = [] then None else case ev of
     Send n \<Rightarrow> Some (s\<lparr>sg_pending := insert n (sg_pending s)\<rparr>)
   | Deliver n \<Rightarrow> if n \<notin> sg_pending s \<or> n \<in> sg_mask s then None
       else if n \<in> sg_handlers s then Some (signal_handler n (s\<lparr>sg_pending := sg_pending s - {n}\<rparr>))
       else Some (s\<lparr>sg_ended := Some (Killed n)\<rparr>)
   | Accept n \<Rightarrow> if hd (sg_code s) = Sigwait \<and> n \<in> sg_pending s \<inter> sg_all s - {SIGKILL}
       then Some (s\<lparr>sg_code := tl (sg_code s), sg_pending := sg_pending s - {n}, sg_sig := Some n\<rparr>) else None
   | Exec ok \<Rightarrow> map_option (\<lambda>s'. s'\<lparr>sg_code := tl (sg_code s)\<rparr>) (sig_exec ok (hd (sg_code s)) s))"

section \<open>What the threads achieve\<close>

text \<open>A signal that can be caught ended the process: only where the argument allows it.\<close>

definition killed_only :: "(signal_t \<Rightarrow> bool) \<Rightarrow> sig_state \<Rightarrow> bool" where
  "killed_only P s \<longleftrightarrow> (\<forall>n. sg_ended s = Some (Killed n) \<longrightarrow> n = SIGKILL \<or> P n)"

text \<open>The assertions at statement number \<open>k\<close> of each function.\<close>

definition block_at :: "nat \<Rightarrow> sig_state \<Rightarrow> bool" where
  "block_at k s \<longleftrightarrow> k \<le> 3 \<and> sg_code s = drop k block_all_signal \<and> sg_handlers s = {} \<and> sg_caught s = [] \<and> killed_only (\<lambda>n. k < 2) s \<and>
     (sg_ended s = None \<longrightarrow> (0 < k \<longrightarrow> {SIGINT, SIGQUIT} \<subseteq> sg_all s) \<and> (1 < k \<longrightarrow> {SIGINT, SIGQUIT} \<subseteq> sg_mask s))"

definition int_at :: "signal_t set \<Rightarrow> nat \<Rightarrow> sig_state \<Rightarrow> bool" where
  "int_at junk k s \<longleftrightarrow> k \<le> 6 \<and> sg_code s = drop k non_block_int_sig \<and> sg_handlers s = (if 4 < k then {SIGINT} else {}) \<and>
     set (sg_caught s) \<subseteq> {SIGINT} \<and> killed_only (\<lambda>n. if n = SIGINT then k < 5 else k < 2 \<or> n \<in> junk) s \<and>
     (sg_ended s = None \<longrightarrow> (0 < k \<and> k < 4 \<longrightarrow> {SIGINT, SIGQUIT} \<subseteq> sg_all s) \<and> (1 < k \<and> k < 4 \<longrightarrow> {SIGINT, SIGQUIT} \<subseteq> sg_mask s) \<and>
       (k < 3 \<longrightarrow> sg_int s = junk) \<and> (2 < k \<longrightarrow> sg_int s = insert SIGINT junk) \<and>
       (3 < k \<longrightarrow> SIGINT \<notin> sg_mask s \<and> (SIGQUIT \<in> junk \<or> SIGQUIT \<in> sg_mask s)))"

definition quit_at :: "nat \<Rightarrow> sig_state \<Rightarrow> bool" where
  "quit_at k s \<longleftrightarrow> k \<le> 6 \<and> sg_code s = drop k non_block_quit_sig \<and> sg_handlers s \<subseteq> (if 3 < k then {SIGQUIT} else {}) \<and> sg_caught s = [] \<and>
     killed_only (\<lambda>n. k < 2) s \<and>
     (sg_ended s = None \<longrightarrow> (0 < k \<longrightarrow> {SIGINT, SIGQUIT} \<subseteq> sg_all s) \<and> (1 < k \<longrightarrow> {SIGINT, SIGQUIT} \<subseteq> sg_mask s) \<and>
       (4 < k \<longrightarrow> sg_sig s \<in> {Some SIGINT, Some SIGQUIT}))"

lemmas signal_defs = sig_step_def signal_handler_def killed_only_def

lemma block_step:
  assumes k: "block_at k s" and step: "sig_step ev s = Some s'"
  shows "\<exists>k. block_at k s'"
proof -
  let ?k = "if (\<exists>ok. ev = Exec ok) \<or> (\<exists>n. ev = Accept n) then Suc k else k"
  have c: "k = 0 \<or> k = 1 \<or> k = 2"
  proof -
    have "length block_all_signal \<le> k \<longleftrightarrow> False" using assms by (simp add: block_at_def sig_step_def signal_handler_def split: if_splits)
    then show ?thesis by (simp add: block_all_signal_def) arith
  qed
  have "block_at ?k s'"
  proof (cases ev)
    case (Send n)
    with step have "s' = s\<lparr>sg_pending := insert n (sg_pending s)\<rparr>" by (simp add: sig_step_def signal_handler_def split: if_splits)
    with k Send show ?thesis unfolding block_at_def killed_only_def by simp
  next
    case (Deliver n)
    from c show ?thesis using assms Deliver by (elim disjE; cases n) (auto simp: block_at_def signal_defs split: if_splits)
  next
    case (Accept n)
    from c show ?thesis using assms Accept by (elim disjE; cases n) (auto simp: block_at_def signal_defs block_all_signal_def split: if_splits)
  next
    case (Exec ok)
    from c show ?thesis using assms Exec by (elim disjE; cases ok) (auto simp: block_at_def signal_defs block_all_signal_def split: if_splits)
  qed
  then show ?thesis by blast
qed

interpretation block_thread: kept sig_step "\<lambda>s. \<exists>k. block_at k s"
  by unfold_locales (use block_step in blast)

lemma int_step:
  assumes k: "int_at junk k s" and step: "sig_step ev s = Some s'"
  shows "\<exists>k. int_at junk k s'"
proof -
  let ?k = "if (\<exists>ok. ev = Exec ok) \<or> (\<exists>n. ev = Accept n) then Suc k else k"
  have c: "k = 0 \<or> k = 1 \<or> k = 2 \<or> k = 3 \<or> k = 4 \<or> k = 5"
  proof -
    have "length non_block_int_sig \<le> k \<longleftrightarrow> False" using assms by (simp add: int_at_def sig_step_def signal_handler_def split: if_splits)
    then show ?thesis by (simp add: non_block_int_sig_def) arith
  qed
  have "int_at junk ?k s'"
  proof (cases ev)
    case (Send n)
    with step have "s' = s\<lparr>sg_pending := insert n (sg_pending s)\<rparr>" by (simp add: sig_step_def signal_handler_def split: if_splits)
    with k Send show ?thesis unfolding int_at_def killed_only_def by simp
  next
    case (Deliver n)
    from c show ?thesis using assms Deliver by (elim disjE; cases n) (auto simp: int_at_def signal_defs split: if_splits)
  next
    case (Accept n)
    from c show ?thesis using assms Accept by (elim disjE; cases n) (auto simp: int_at_def signal_defs non_block_int_sig_def split: if_splits)
  next
    case (Exec ok)
    from c show ?thesis using assms Exec by (elim disjE; cases ok) (auto simp: int_at_def signal_defs non_block_int_sig_def split: if_splits)
  qed
  then show ?thesis by blast
qed

interpretation int_thread: kept sig_step "\<lambda>s. \<exists>k. int_at junk k s"
  by unfold_locales (use int_step in blast)

lemma quit_step:
  assumes k: "quit_at k s" and step: "sig_step ev s = Some s'"
  shows "\<exists>k. quit_at k s'"
proof -
  let ?k = "if (\<exists>ok. ev = Exec ok) \<or> (\<exists>n. ev = Accept n) then Suc k else k"
  have c: "k = 0 \<or> k = 1 \<or> k = 2 \<or> k = 3 \<or> k = 4 \<or> k = 5"
  proof -
    have "length non_block_quit_sig \<le> k \<longleftrightarrow> False" using assms by (simp add: quit_at_def sig_step_def signal_handler_def split: if_splits)
    then show ?thesis by (simp add: non_block_quit_sig_def) arith
  qed
  have "quit_at ?k s'"
  proof (cases ev)
    case (Send n)
    with step have "s' = s\<lparr>sg_pending := insert n (sg_pending s)\<rparr>" by (simp add: sig_step_def signal_handler_def split: if_splits)
    with k Send show ?thesis unfolding quit_at_def killed_only_def by simp
  next
    case (Deliver n)
    from c show ?thesis using assms Deliver by (elim disjE; cases n) (auto simp: quit_at_def signal_defs split: if_splits)
  next
    case (Accept n)
    from c show ?thesis using assms Accept by (elim disjE; cases n) (auto simp: quit_at_def signal_defs non_block_quit_sig_def split: if_splits)
  next
    case (Exec ok)
    from c show ?thesis using assms Exec by (elim disjE; cases ok) (auto simp: quit_at_def signal_defs non_block_quit_sig_def split: if_splits)
  qed
  then show ?thesis by blast
qed

interpretation quit_thread: kept sig_step "\<lambda>s. \<exists>k. quit_at k s"
  by unfold_locales (use quit_step in blast)

lemma signal_starts:
  "block_at 0 (sig_start block_all_signal junk)" "int_at junk 0 (sig_start non_block_int_sig junk)" "quit_at 0 (sig_start non_block_quit_sig junk)"
  by (simp_all add: block_at_def int_at_def quit_at_def sig_start_def killed_only_def)

text \<open>The thread that blocks everything: no handler runs, and once \<open>pthread_sigmask\<close> has returned only \<open>SIGKILL\<close> can end the process.\<close>

theorem block_all_signal_blocks:
  assumes "steps sig_step (sig_start block_all_signal junk) s"
  shows "sg_caught s = [] \<and> (\<forall>n. sg_ended s = Some (Killed n) \<longrightarrow> n = SIGKILL \<or> sg_code s \<in> {block_all_signal, tl block_all_signal})"
proof -
  from block_thread.steps_inv [OF assms] signal_starts(1) obtain k where "block_at k s" by blast
  moreover have "drop k block_all_signal \<in> {block_all_signal, tl block_all_signal}" if "k < 2"
    using that by (cases k) (auto simp: drop_Suc)
  ultimately show ?thesis by (auto simp: block_at_def killed_only_def)
qed

text \<open>
  The thread that lets \<open>SIGINT\<close> through. The handler runs for \<open>SIGINT\<close> only; once it sleeps, every \<open>SIGINT\<close> can be delivered and is caught; the process is killed by \<open>SIGINT\<close> only before the
  handler is installed, and by \<open>SIGQUIT\<close> later than the blocking only if the set that is not initialised happens to contain it.
\<close>

theorem non_block_int_sig_catches:
  assumes "steps sig_step (sig_start non_block_int_sig junk) s"
  shows "set (sg_caught s) \<subseteq> {SIGINT} \<and>
    (sg_code s = [Sleep] \<and> sg_ended s = None \<longrightarrow> (\<exists>s'. run sig_step [Send SIGINT, Deliver SIGINT] s = Some s' \<and>
       sg_caught s' = sg_caught s @ [SIGINT] \<and> sg_ended s' = None)) \<and>
    (sg_ended s = Some (Killed SIGINT) \<longrightarrow> 1 < length (sg_code s)) \<and>
    (sg_ended s = Some (Killed SIGQUIT) \<longrightarrow> 4 < length (sg_code s) \<or> SIGQUIT \<in> junk)"
proof -
  from int_thread.steps_inv [OF assms] signal_starts(2) obtain k where k: "int_at junk k s" by blast
  then have len: "length (sg_code s) = 6 - k" by (simp add: int_at_def non_block_int_sig_def)
  have "k = 5" if "sg_code s = [Sleep]" using that len k by (simp add: int_at_def)
  with k have "\<exists>s'. run sig_step [Send SIGINT, Deliver SIGINT] s = Some s' \<and> sg_caught s' = sg_caught s @ [SIGINT] \<and> sg_ended s' = None"
    if "sg_code s = [Sleep]" "sg_ended s = None"
    using that by (simp add: int_at_def sig_step_def signal_handler_def non_block_int_sig_def)
  moreover have "set (sg_caught s) \<subseteq> {SIGINT}" using k by (simp add: int_at_def)
  moreover have "sg_ended s = Some (Killed SIGINT) \<longrightarrow> k < 5" "sg_ended s = Some (Killed SIGQUIT) \<longrightarrow> k < 2 \<or> SIGQUIT \<in> junk"
    using k by (auto simp: int_at_def killed_only_def)
  ultimately show ?thesis using len by auto
qed

text \<open>A \<open>SIGINT\<close> between the unblocking and the installation of the handler kills the process.\<close>

lemma non_block_int_sig_window:
  "\<exists>s. run sig_step [Exec True, Exec True, Exec True, Exec True, Send SIGINT, Deliver SIGINT] (sig_start non_block_int_sig {}) = Some s \<and>
    sg_ended s = Some (Killed SIGINT)"
  by (simp add: sig_step_def signal_handler_def sig_start_def non_block_int_sig_def)

text \<open>
  The thread that waits. Its handler never runs, although it is installed; what \<open>sigwait\<close> delivers is \<open>SIGINT\<close> or \<open>SIGQUIT\<close>, and a \<open>SIGQUIT\<close> sent to the waiting thread is
  accepted.
\<close>

theorem non_block_quit_sig_waits:
  assumes "steps sig_step (sig_start non_block_quit_sig junk) s"
  shows "sg_caught s = [] \<and> (sg_ended s = None \<and> length (sg_code s) < 2 \<longrightarrow> sg_sig s \<in> {Some SIGINT, Some SIGQUIT}) \<and>
    (sg_ended s = None \<and> sg_code s = [Sigwait, Sleep] \<longrightarrow> (\<exists>s'. run sig_step [Send SIGQUIT, Accept SIGQUIT] s = Some s' \<and>
       sg_sig s' = Some SIGQUIT \<and> sg_code s' = [Sleep]))"
proof -
  from quit_thread.steps_inv [OF assms] signal_starts(3) obtain k where k: "quit_at k s" by blast
  then have len: "length (sg_code s) = 6 - k" by (simp add: quit_at_def non_block_quit_sig_def)
  have "k = 4" if "sg_code s = [Sigwait, Sleep]" using that len k by (simp add: quit_at_def)
  with k have "\<exists>s'. run sig_step [Send SIGQUIT, Accept SIGQUIT] s = Some s' \<and> sg_sig s' = Some SIGQUIT \<and> sg_code s' = [Sleep]"
    if "sg_code s = [Sigwait, Sleep]" "sg_ended s = None"
    using that by (simp add: quit_at_def sig_step_def signal_handler_def non_block_quit_sig_def)
  moreover have "sg_ended s = None \<and> 4 < k \<longrightarrow> sg_sig s \<in> {Some SIGINT, Some SIGQUIT}" "sg_caught s = []"
    using k by (simp_all add: quit_at_def)
  ultimately show ?thesis using len by auto
qed

end
