(* ===== verification/Reverse.thy ===== *)
theory Reverse
  imports Prelude
begin

text \<open>
  The program of \<open>semestr1/Task3/Task3_1/main.c\<close>: for a directory it makes a directory with the reversed name that
  holds, under their reversed names, the subdirectories and the regular files with their bytes in reverse order.

  Buffers are lists of bytes of the allocated length, with the contents \<open>malloc\<close> left in memory; every C string
  function checks that it stays inside them. The file system is a map from path strings to nodes; \<open>readdir\<close>
  delivers the entries of the node. Results of the system calls that may fail are parameters.
\<close>

section \<open>Constants and the file system\<close>

definition BUFFER_SIZE :: nat where "BUFFER_SIZE = 256"
definition MAX_LEN_NAME_FILE :: nat where "MAX_LEN_NAME_FILE = 256"

datatype ret_status = OK | ERROR
datatype d_type = DT_DIR | DT_REG | DT_OTHER

type_synonym path = "c_char list"

datatype node = Folder "(path \<times> d_type) list" | Reg "c_char list"

type_synonym fs = "path \<rightharpoonup> node"

abbreviation slash :: c_char where "slash \<equiv> 0x2F"
abbreviation dot :: path where "dot \<equiv> [0x2E]"
abbreviation dotdot :: path where "dotdot \<equiv> [0x2E, 0x2E]"

text \<open>The last component of a path and the directory in front of it.\<close>

definition base_name :: "path \<Rightarrow> path" where
  "base_name p = rev (takeWhile (\<lambda>c. c \<noteq> slash) (rev p))"

definition parent :: "path \<Rightarrow> path" where
  "parent p = (if slash \<in> set p then take (length p - length (base_name p) - 1) p else dot)"

text \<open>A new entry in the directory of a path; \<open>None\<close> if there is no such directory.\<close>

definition add_entry :: "fs \<Rightarrow> path \<Rightarrow> d_type \<Rightarrow> fs option" where
  "add_entry fs p ty = (case fs (parent p) of
     Some (Folder es) \<Rightarrow> Some (fs(parent p \<mapsto> Folder (es @ [(base_name p, ty)]))) | _ \<Rightarrow> None)"

definition mkdir :: "fs \<Rightarrow> path \<Rightarrow> fs option" where
  "mkdir fs p = (case fs p of Some nd \<Rightarrow> None
     | None \<Rightarrow> map_option (\<lambda>f. f(p \<mapsto> Folder [(dot, DT_DIR), (dotdot, DT_DIR)])) (add_entry fs p DT_DIR))"

text \<open>\<open>fopen\<close> with mode wb: truncates a file or creates one.\<close>

definition fopen_wb :: "fs \<Rightarrow> path \<Rightarrow> fs option" where
  "fopen_wb fs p = (case fs p of Some (Folder es) \<Rightarrow> None | Some (Reg b) \<Rightarrow> Some (fs(p \<mapsto> Reg []))
     | None \<Rightarrow> map_option (\<lambda>f. f(p \<mapsto> Reg [])) (add_entry fs p DT_REG))"

text \<open>
  The environment. For a file, by its path: the \<open>k\<close>-th \<open>fseek\<close> succeeds, the \<open>k\<close>-th \<open>fread\<close> succeeds, and how many bytes the
  \<open>k\<close>-th \<open>fwrite\<close> can write. For the directory of a call of \<open>fill_folder\<close>: what its three calls of \<open>malloc\<close> give
  (or that they fail), and whether \<open>realloc\<close> succeeds.
\<close>

record environment =
  seek_ok :: "path \<Rightarrow> nat \<Rightarrow> bool"
  read_ok :: "path \<Rightarrow> nat \<Rightarrow> bool"
  room :: "path \<Rightarrow> nat \<Rightarrow> nat"
  malloc :: "path \<Rightarrow> nat \<Rightarrow> (nat \<Rightarrow> c_char) option"
  realloc_ok :: bool

section \<open>Reversing a line\<close>

definition swap :: "c_char list \<Rightarrow> nat \<Rightarrow> nat \<Rightarrow> c_char list" where
  "swap line i j = line[i := line ! j, j := line ! i]"

function reverse_loop :: "nat \<Rightarrow> nat \<Rightarrow> nat \<Rightarrow> c_char list \<Rightarrow> c_char list" where
  "reverse_loop mid sz i line =
     (if i < mid then reverse_loop mid sz (Suc i) (swap line i (sz - i - 1)) else line)"
  by pat_completeness auto
termination by (relation "measure (\<lambda>(mid, sz, i, line). mid - i)") auto

declare reverse_loop.simps [simp del]

definition reverse_line :: "c_char list \<Rightarrow> nat \<Rightarrow> fault + c_char list" where
  "reverse_line line sz = (if sz div 2 = 0 \<or> sz \<le> length line then Inr (reverse_loop (sz div 2) sz 0 line)
     else Inl OutOfBounds)"

definition is_curr_or_prev_dir :: "path \<Rightarrow> bool" where
  "is_curr_or_prev_dir dir \<longleftrightarrow> dir = dot \<or> dir = dotdot"

section \<open>Reversing a file\<close>

text \<open>\<open>fseek\<close> and \<open>fwrite\<close>: bytes behind the end of the file up to the position become zeros.\<close>

definition write_at :: "c_char list \<Rightarrow> nat \<Rightarrow> c_char list \<Rightarrow> c_char list" where
  "write_at content pos bs = (if bs = [] then content
     else take pos (content @ replicate (pos - length content) 0) @ bs @ drop (pos + length bs) content)"

text \<open>
  The loop of \<open>create_reverse_file\<close>: \<open>content\<close> is the input, \<open>k\<close> counts the rounds. The end-of-file flag is set only when
  fewer bytes are there than were asked for. The test of the result of \<open>fwrite\<close> is with \<open>-1\<close>, which it never returns.
\<close>

function file_loop :: "environment \<Rightarrow> path \<Rightarrow> path \<Rightarrow> nat \<Rightarrow> c_char list \<Rightarrow> nat \<Rightarrow> c_char list \<Rightarrow>
    fault + ret_status \<times> c_char list" where
  "file_loop env input_path output_path k content bytes_left out =
     (if bytes_left = 0 then Inr (OK, out)
      else
        let bytes_to_read = (if bytes_left < BUFFER_SIZE then bytes_left else BUFFER_SIZE);
            buffer = take bytes_to_read (drop (length content - bytes_left) content);
            bytes_read = length buffer
        in if bytes_read < bytes_to_read \<or> \<not> read_ok env input_path k then Inr (ERROR, out)
           else fbind (reverse_line buffer bytes_read) (\<lambda>buffer'.
             if \<not> seek_ok env output_path k then Inr (ERROR, out)
             else file_loop env input_path output_path (Suc k) content (bytes_left - bytes_read)
               (write_at out (bytes_left - bytes_read) (take (room env output_path k) buffer'))))"
  by pat_completeness auto
termination
  by (relation "measure (\<lambda>(env, ip, op, k, content, bytes_left, out). bytes_left)")
    (auto simp: BUFFER_SIZE_def split: if_splits)

declare file_loop.simps [simp del]

text \<open>\<open>create_reverse_file\<close>. The output is opened, and truncated, before the sz of the input is read.\<close>

definition create_reverse_file :: "environment \<Rightarrow> path \<Rightarrow> path \<Rightarrow> fs \<Rightarrow> fault + ret_status \<times> fs" where
  "create_reverse_file env input_path output_path fs = (case fs input_path of
     Some (Reg b) \<Rightarrow> (case fopen_wb fs output_path of None \<Rightarrow> Inr (ERROR, fs)
       | Some fs1 \<Rightarrow> if \<not> seek_ok env input_path 0 \<or> \<not> seek_ok env input_path 1 then Inr (ERROR, fs1)
          else (let content = (case fs1 input_path of Some (Reg c) \<Rightarrow> c | _ \<Rightarrow> []) in
            fbind (file_loop env input_path output_path 0 content (length content) [])
              (\<lambda>(st, out). Inr (st, fs1(output_path \<mapsto> Reg out)))))
   | _ \<Rightarrow> Inr (ERROR, fs))"

section \<open>Directories\<close>

text \<open>String functions on buffers.\<close>

definition str_len :: "c_char list \<Rightarrow> fault + nat" where
  "str_len buf = (if 0 \<in> set buf then Inr (length (c_str buf)) else Inl OutOfBounds)"

text \<open>\<open>strncpy(buf, s, n)\<close> with \<open>n\<close> at most the length of \<open>s\<close>: no terminator is written.\<close>

definition str_ncpy :: "c_char list \<Rightarrow> c_char list \<Rightarrow> nat \<Rightarrow> fault + c_char list" where
  "str_ncpy buf s n = (if n \<le> length buf then Inr (take n s @ drop n buf) else Inl OutOfBounds)"

definition put_str :: "c_char list \<Rightarrow> c_char list \<Rightarrow> fault + c_char list" where
  "put_str buf s = (if length s < length buf then Inr (s @ 0 # drop (Suc (length s)) buf) else Inl OutOfBounds)"

definition mem_set0 :: "c_char list \<Rightarrow> nat \<Rightarrow> fault + c_char list" where
  "mem_set0 buf n = (if n \<le> length buf then Inr (replicate n 0 @ drop n buf) else Inl OutOfBounds)"

definition realloc_buf :: "environment \<Rightarrow> c_char list \<Rightarrow> nat \<Rightarrow> c_char list option" where
  "realloc_buf env buf n = (if realloc_ok env then Some (take n buf @ replicate (n - length buf) 0) else None)"

text \<open>\<open>is_correct_len_folder\<close>; \<open>None\<close> is \<open>false\<close>.\<close>

definition is_correct_len_folder :: "environment \<Rightarrow> c_char list \<times> c_char list \<times> c_char list \<Rightarrow> path \<Rightarrow>
    (c_char list \<times> c_char list \<times> c_char list) option" where
  "is_correct_len_folder env bufs d_name = (case bufs of (name_rev, path_rev, path_origin) \<Rightarrow>
     if length d_name > MAX_LEN_NAME_FILE then
       (let relocation_size = length d_name - MAX_LEN_NAME_FILE + 1 in
        (case realloc_buf env name_rev relocation_size of None \<Rightarrow> None | Some name_rev' \<Rightarrow>
        (case realloc_buf env path_rev relocation_size of None \<Rightarrow> None | Some path_rev' \<Rightarrow>
        (case realloc_buf env path_origin relocation_size of None \<Rightarrow> None | Some path_origin' \<Rightarrow>
          Some (name_rev', path_rev', path_origin')))))
     else Some bufs)"

text \<open>The names a round of \<open>fill_folder\<close> builds: the buffers afterwards.\<close>

definition entry_names :: "path \<Rightarrow> path \<Rightarrow> path \<Rightarrow> c_char list \<times> c_char list \<times> c_char list \<Rightarrow>
    fault + c_char list \<times> c_char list \<times> c_char list" where
  "entry_names path_origin_folder path_reverse_folder d_name bufs = (case bufs of (name_rev, path_rev, path_origin) \<Rightarrow>
     fbind (str_ncpy name_rev d_name (length d_name)) (\<lambda>name1.
     fbind (str_len name1) (\<lambda>n.
     fbind (reverse_line name1 n) (\<lambda>name2.
     fbind (put_str path_rev (path_reverse_folder @ slash # c_str name2)) (\<lambda>path_rev'.
     fbind (put_str path_origin (path_origin_folder @ slash # d_name)) (\<lambda>path_origin'.
       Inr (name2, path_rev', path_origin')))))))"

text \<open>The three calls of \<open>memset\<close> at the end of a round, all with the length of the origin path.\<close>

definition clear_buffers :: "c_char list \<times> c_char list \<times> c_char list \<Rightarrow> fault + c_char list \<times> c_char list \<times> c_char list" where
  "clear_buffers bufs = (case bufs of (name_rev, path_rev, path_origin) \<Rightarrow>
     fbind (str_len path_origin) (\<lambda>n.
     fbind (mem_set0 name_rev n) (\<lambda>name_rev'.
     fbind (mem_set0 path_rev n) (\<lambda>path_rev'.
     fbind (mem_set0 path_origin n) (\<lambda>path_origin'. Inr (name_rev', path_rev', path_origin'))))))"

text \<open>
  The loop of \<open>fill_folder\<close> over the entries. \<open>create\<close> stands for the recursive call of \<open>create_reverse_folder\<close>. The
  outer \<open>None\<close>: the recursion was cut off.
\<close>

fun fill_loop :: "(path \<Rightarrow> path \<Rightarrow> fs \<Rightarrow> (fault + ret_status \<times> fs) option) \<Rightarrow> environment \<Rightarrow> path \<Rightarrow> path \<Rightarrow>
    (path \<times> d_type) list \<Rightarrow> c_char list \<times> c_char list \<times> c_char list \<Rightarrow> fs \<Rightarrow> (fault + ret_status \<times> fs) option" where
  "fill_loop create env orig revd [] bufs fs = Some (Inr (OK, fs))"
| "fill_loop create env orig revd ((d_name, ty) # es) bufs fs =
    (case is_correct_len_folder env bufs d_name of None \<Rightarrow> Some (Inr (ERROR, fs))
     | Some bufs1 \<Rightarrow>
     (case entry_names orig revd d_name bufs1 of Inl f \<Rightarrow> Some (Inl f)
      | Inr (name_rev, path_rev, path_origin) \<Rightarrow>
       (case (if ty = DT_DIR \<and> \<not> is_curr_or_prev_dir d_name then create (c_str path_origin) (c_str path_rev) fs
              else if ty = DT_REG then Some (create_reverse_file env (c_str path_origin) (c_str path_rev) fs)
              else Some (Inr (OK, fs))) of
          None \<Rightarrow> None
        | Some (Inl f) \<Rightarrow> Some (Inl f)
        | Some (Inr (ret, fs')) \<Rightarrow>
            if ret = ERROR \<or> \<not> (ty = DT_DIR \<or> ty = DT_REG) then Some (Inr (ERROR, fs'))
            else (case clear_buffers (name_rev, path_rev, path_origin) of Inl f \<Rightarrow> Some (Inl f)
              | Inr bufs2 \<Rightarrow> fill_loop create env orig revd es bufs2 fs'))))"

definition fill_folder :: "(path \<Rightarrow> path \<Rightarrow> fs \<Rightarrow> (fault + ret_status \<times> fs) option) \<Rightarrow> environment \<Rightarrow> path \<Rightarrow> path \<Rightarrow>
    fs \<Rightarrow> (fault + ret_status \<times> fs) option" where
  "fill_folder create env orig revd fs = (case fs orig of
     Some (Folder es) \<Rightarrow>
      (case malloc env orig 0 of None \<Rightarrow> Some (Inr (ERROR, fs)) | Some m0 \<Rightarrow>
      (case malloc env orig 1 of None \<Rightarrow> Some (Inr (ERROR, fs)) | Some m1 \<Rightarrow>
      (case malloc env orig 2 of None \<Rightarrow> Some (Inr (ERROR, fs)) | Some m2 \<Rightarrow>
        fill_loop create env orig revd es
          (map m0 [0..<MAX_LEN_NAME_FILE], map m1 [0..<MAX_LEN_NAME_FILE + length revd],
           map m2 [0..<MAX_LEN_NAME_FILE + length orig]) fs)))
   | _ \<Rightarrow> Some (Inr (ERROR, fs)))"

text \<open>\<open>create_reverse_folder\<close>, with at most \<open>depth\<close> nested calls. The status of \<open>fill_folder\<close> is not used.\<close>

fun create_reverse_folder :: "nat \<Rightarrow> environment \<Rightarrow> path \<Rightarrow> path \<Rightarrow> fs \<Rightarrow> (fault + ret_status \<times> fs) option" where
  "create_reverse_folder 0 env orig revd fs = None"
| "create_reverse_folder (Suc depth) env orig revd fs = (case mkdir fs revd of None \<Rightarrow> Some (Inr (ERROR, fs))
     | Some fs1 \<Rightarrow> (case fill_folder (create_reverse_folder depth env) env orig revd fs1 of None \<Rightarrow> None
        | Some (Inl f) \<Rightarrow> Some (Inl f)
        | Some (Inr (st, fs2)) \<Rightarrow> Some (Inr (OK, fs2))))"

section \<open>The program\<close>

fun maximum_size_path :: "path list \<Rightarrow> nat \<Rightarrow> nat" where
  "maximum_size_path [] max_size = max_size"
| "maximum_size_path (a # as) max_size = maximum_size_path as (if max_size < length a then length a else max_size)"

text \<open>
  \<open>find_name_folder\<close>: the buffer \<open>path_to_folder\<close> afterwards and the last component of the path. Without a slash
  \<open>snprintf\<close> writes a dot, a slash and the terminator.
\<close>

definition find_name_folder :: "path \<Rightarrow> c_char list \<Rightarrow> fault + c_char list \<times> path" where
  "find_name_folder path_origin_folder path_to_folder =
     (let folder_len = length path_origin_folder - length (base_name path_origin_folder) in
      fbind (str_ncpy path_to_folder path_origin_folder folder_len) (\<lambda>buf.
        if slash \<notin> set path_origin_folder
        then fbind (put_str buf [0x2E, slash]) (\<lambda>buf'. Inr (buf', base_name path_origin_folder))
        else Inr (buf, base_name path_origin_folder)))"

definition str_cat :: "c_char list \<Rightarrow> c_char list \<Rightarrow> fault + c_char list" where
  "str_cat buf s = fbind (str_len buf) (\<lambda>n.
     fbind (str_len s) (\<lambda>k. fbind (put_str (drop n buf) (take k s)) (\<lambda>t. Inr (take n buf @ t))))"

text \<open>The loop of \<open>run_reverse\<close> over the arguments.\<close>

fun run_loop :: "nat \<Rightarrow> environment \<Rightarrow> path list \<Rightarrow> c_char list \<Rightarrow> c_char list \<Rightarrow> fs \<Rightarrow> (fault + ret_status \<times> fs) option" where
  "run_loop depth env [] rev_folder path_to_folder fs = Some (Inr (OK, fs))"
| "run_loop depth env (a # as) rev_folder path_to_folder fs =
    (case fbind (find_name_folder a path_to_folder) (\<lambda>(path1, origin_folder).
       fbind (str_ncpy rev_folder origin_folder (length origin_folder)) (\<lambda>rev1.
       fbind (str_len rev1) (\<lambda>n.
       fbind (reverse_line rev1 n) (\<lambda>rev2.
       fbind (str_cat path1 rev2) (\<lambda>path2. Inr (rev2, path2)))))) of
       Inl f \<Rightarrow> Some (Inl f)
     | Inr (rev2, path2) \<Rightarrow>
        (case create_reverse_folder depth env a (c_str path2) fs of None \<Rightarrow> None
         | Some (Inl f) \<Rightarrow> Some (Inl f)
         | Some (Inr (st, fs')) \<Rightarrow> if st = ERROR then Some (Inr (ERROR, fs'))
             else run_loop depth env as rev2 path2 fs'))"

text \<open>\<open>run_reverse\<close>, with the arguments behind the program name; \<open>m0\<close>, \<open>m1\<close> is what the two calls of \<open>malloc\<close> find in memory.\<close>

definition run_reverse :: "nat \<Rightarrow> environment \<Rightarrow> (nat \<Rightarrow> c_char) \<Rightarrow> (nat \<Rightarrow> c_char) \<Rightarrow> path list \<Rightarrow> fs \<Rightarrow> (fault + ret_status \<times> fs) option" where
  "run_reverse depth env m0 m1 args fs = (if args = [] then Some (Inr (ERROR, fs))
     else let max_size = maximum_size_path args 0 in
       run_loop depth env args (map m0 [0..<max_size]) (map m1 [0..<max_size]) fs)"

definition reverse_main :: "nat \<Rightarrow> environment \<Rightarrow> (nat \<Rightarrow> c_char) \<Rightarrow> (nat \<Rightarrow> c_char) \<Rightarrow> path list \<Rightarrow> fs \<Rightarrow> (fault + nat \<times> fs) option" where
  "reverse_main depth env m0 m1 args fs = map_option (\<lambda>r. fbind r (\<lambda>(st, fs'). Inr (if st = ERROR then 1 else 0, fs')))
     (run_reverse depth env m0 m1 args fs)"

section \<open>Lines and files\<close>

lemma length_swap [simp]: "length (swap line i j) = length line"
  by (simp add: swap_def)

lemma reverse_loop_nth:
  assumes "sz \<le> length line" and "mid \<le> sz div 2" and "i \<le> mid"
  shows "length (reverse_loop mid sz i line) = length line \<and>
    (\<forall>j < length line. reverse_loop mid sz i line ! j =
      (if i \<le> j \<and> j < mid \<or> sz - mid \<le> j \<and> j < sz - i then line ! (sz - 1 - j) else line ! j))"
  using assms
proof (induction mid sz i line rule: reverse_loop.induct)
  case (1 mid sz i line)
  show ?case
  proof (cases "i < mid")
    case True
    let ?l = "swap line i (sz - i - 1)"
    have b: "2 * mid \<le> sz" "sz \<le> length line" using 1(2,3) by auto
    have IH: "length (reverse_loop mid sz (Suc i) ?l) = length line"
      "reverse_loop mid sz (Suc i) ?l ! j = (if Suc i \<le> j \<and> j < mid \<or> sz - mid \<le> j \<and> j < sz - Suc i
         then ?l ! (sz - 1 - j) else ?l ! j)" if "j < length line" for j
      using 1(1) [OF True] 1(2,3) True that by simp_all
    have sw: "?l ! j = (if j = sz - i - 1 then line ! i else if j = i then line ! (sz - i - 1) else line ! j)"
      if "j < length line" for j using that b True by (simp add: swap_def nth_list_update)
    have "reverse_loop mid sz (Suc i) ?l ! j =
        (if i \<le> j \<and> j < mid \<or> sz - mid \<le> j \<and> j < sz - i then line ! (sz - 1 - j) else line ! j)"
      if j: "j < length line" for j
    proof -
      consider "j = i" | "j = sz - 1 - i" "j \<noteq> i" | "j \<noteq> i" "j \<noteq> sz - 1 - i" by blast
      then show ?thesis
      proof cases
        case 1
        moreover have "\<not> sz - mid \<le> i" using b True by linarith
        ultimately show ?thesis using IH(2) [OF j] sw [OF j] b True by auto
      next
        case 2
        moreover have "\<not> sz - Suc i < mid" "sz - mid \<le> sz - Suc i" "sz - Suc i < sz - i" "sz - 1 - (sz - Suc i) = i"
          using b True by linarith+
        ultimately show ?thesis using IH(2) [OF j] sw [OF j] by auto
      next
        case 3
        have "sz - 1 - j \<noteq> i \<and> sz - 1 - j \<noteq> sz - i - 1" if "j < sz" using 3 b True that by linarith
        moreover have "Suc i \<le> j \<and> j < mid \<or> sz - mid \<le> j \<and> j < sz - Suc i \<longleftrightarrow>
          i \<le> j \<and> j < mid \<or> sz - mid \<le> j \<and> j < sz - i" using 3 b True by linarith
        ultimately show ?thesis using IH(2) [OF j] sw [OF j] sw [of "sz - 1 - j"] 3 b True by auto
      qed
    qed
    moreover have "length (reverse_loop mid sz (Suc i) ?l) = length line" using IH(1) [of 0] b True by linarith
    ultimately show ?thesis using True by (simp add: reverse_loop.simps [of mid sz i])
  next
    case False
    with 1(2-4) show ?thesis by (auto simp: reverse_loop.simps [of mid sz mid])
  qed
qed

lemma reverse_line_rev:
  assumes "sz \<le> length line"
  shows "reverse_line line sz = Inr (rev (take sz line) @ drop sz line)"
proof -
  note r = reverse_loop_nth [OF assms, of "sz div 2" 0]
  have "reverse_loop (sz div 2) sz 0 line = rev (take sz line) @ drop sz line"
  proof (rule nth_equalityI)
    show "length (reverse_loop (sz div 2) sz 0 line) = length (rev (take sz line) @ drop sz line)" using r assms by simp
    fix j assume "j < length (reverse_loop (sz div 2) sz 0 line)"
    with r have j: "j < length line" by simp
    have "j = sz - Suc j" if "j < sz" "\<not> j < sz div 2" "\<not> sz - sz div 2 \<le> j" using that by linarith
    with r j assms show "reverse_loop (sz div 2) sz 0 line ! j = (rev (take sz line) @ drop sz line) ! j"
      by (auto simp: nth_append rev_nth)
  qed
  with assms show ?thesis by (simp add: reverse_line_def)
qed

lemma reverse_line_whole: "reverse_line line (length line) = Inr (rev line)"
  by (simp add: reverse_line_rev)

definition env_good :: "environment \<Rightarrow> bool" where
  "env_good env \<longleftrightarrow> (\<forall>p k. seek_ok env p k \<and> read_ok env p k \<and> BUFFER_SIZE \<le> room env p k) \<and>
     (\<forall>p k. malloc env p k = Some (\<lambda>i. 0))"

lemma file_loop_rev:
  assumes "env_good env" and "bytes_left \<le> length content"
    and "bytes_left < length content \<Longrightarrow> out = replicate bytes_left 0 @ rev (take (length content - bytes_left) content)"
    and "bytes_left = length content \<Longrightarrow> out = []"
  shows "file_loop env ip op k content bytes_left out = Inr (OK, rev content)"
  using assms(2-4)
proof (induction bytes_left arbitrary: k out rule: less_induct)
  case (less bytes_left)
  show ?case
  proof (cases "bytes_left = 0")
    case True
    with less.prems show ?thesis by (cases "content = []") (auto simp: file_loop.simps)
  next
    case False
    define n where "n = (if bytes_left < BUFFER_SIZE then bytes_left else BUFFER_SIZE)"
    let ?b = "take n (drop (length content - bytes_left) content)"
    have n: "n \<le> bytes_left" "0 < n" "n \<le> BUFFER_SIZE" using False by (auto simp: n_def BUFFER_SIZE_def)
    have len: "length ?b = n" using n(1) less.prems(1) by simp
    have t: "take (length content - (bytes_left - n)) content = take (length content - bytes_left) content @ ?b"
      using n(1) less.prems(1) take_add [of "length content - bytes_left" n content] by (simp add: add.commute)
    have out: "write_at out (bytes_left - n) (rev ?b) =
        replicate (bytes_left - n) 0 @ rev (take (length content - (bytes_left - n)) content)"
      unfolding t using less.prems n len by (cases "bytes_left = length content") (auto simp: write_at_def)
    have env: "read_ok env ip k" "seek_ok env op k" "BUFFER_SIZE \<le> room env op k" using assms(1) by (auto simp: env_good_def)
    have "file_loop env ip op k content bytes_left out =
        file_loop env ip op (Suc k) content (bytes_left - n) (write_at out (bytes_left - n) (rev ?b))"
      using False env n(3) len reverse_line_whole [of ?b]
      by (subst file_loop.simps) (simp add: Let_def flip: n_def)
    also have "\<dots> = Inr (OK, rev content)"
      using n less.prems(1) by (intro less.IH) (auto simp: out)
    finally show ?thesis .
  qed
qed

section \<open>Properties\<close>

text \<open>
  C34. \<open>create_reverse_file\<close> writes the bytes of its input in reverse order, for any length: the blocks of at most 256
  bytes cover the file, the last block may be short, and the seeks behind the end of the output leave no gap.
\<close>

theorem create_reverse_file_reverses:
  assumes "env_good env" and "fs input_path = Some (Reg b)" and "fs output_path = None"
    and "fs (parent output_path) = Some (Folder pl)"
  shows "create_reverse_file env input_path output_path fs = Inr (OK,
    fs(parent output_path \<mapsto> Folder (pl @ [(base_name output_path, DT_REG)]), output_path \<mapsto> Reg (rev b)))"
proof -
  have "parent output_path \<noteq> output_path" "parent output_path \<noteq> input_path" "input_path \<noteq> output_path" using assms(2-4) by auto
  then show ?thesis using assms(2-4) file_loop_rev [OF assms(1), of "length b" b "[]" input_path output_path 0] assms(1)
    by (simp add: create_reverse_file_def fopen_wb_def add_entry_def env_good_def)
qed

definition sample_environment :: environment where
  "sample_environment = \<lparr>seek_ok = (\<lambda>p k. True), read_ok = (\<lambda>p k. True), room = (\<lambda>p k. 256),
     malloc = (\<lambda>p k. Some (\<lambda>i. 0)), realloc_ok = True\<rparr>"

text \<open>A file system: the directory ab with the file cd that holds three bytes.\<close>

definition sample_fs :: fs where
  "sample_fs = [[0x2E] \<mapsto> Folder [(dot, DT_DIR), ([0x61, 0x62], DT_DIR)],
     [0x2E, slash, 0x61, 0x62] \<mapsto> Folder [(dot, DT_DIR), (dotdot, DT_DIR), ([0x63, 0x64], DT_REG)],
     [0x2E, slash, 0x61, 0x62, slash, 0x63, 0x64] \<mapsto> Reg [1, 2, 3]]"

theorem create_reverse_file_reverses_witness:
  "create_reverse_file sample_environment [0x2E, slash, 0x61, 0x62, slash, 0x63, 0x64] [0x2E, slash, 0x78] sample_fs = Inr (OK,
    sample_fs([0x2E] \<mapsto> Folder [(dot, DT_DIR), ([0x61, 0x62], DT_DIR), ([0x78], DT_REG)], [0x2E, slash, 0x78] \<mapsto> Reg [3, 2, 1]))"
proof -
  have "env_good sample_environment" by (simp add: env_good_def sample_environment_def BUFFER_SIZE_def)
  moreover have "parent [0x2E, slash, 0x78] = [0x2E]" "base_name [0x2E, slash, 0x78] = [0x78]"
    by (simp_all add: parent_def base_name_def)
  ultimately show ?thesis
    using create_reverse_file_reverses [of sample_environment sample_fs "[0x2E, slash, 0x61, 0x62, slash, 0x63, 0x64]" "[1, 2, 3]"
      "[0x2E, slash, 0x78]" "[(dot, DT_DIR), ([0x61, 0x62], DT_DIR)]"]
    by (simp add: sample_fs_def)
qed

text \<open>
  \<open>reverse_line\<close> reverses the first bytes of a buffer in place, leaves the rest alone and stays inside the buffer.
\<close>

theorem reverse_line_reverses:
  assumes "sz \<le> length line"
  shows "reverse_line line sz = Inr (rev (take sz line) @ drop sz line)"
  using assms by (rule reverse_line_rev)

theorem reverse_line_reverses_witness: "reverse_line [1, 2, 3, 4, 5] 3 = Inr [3, 2, 1, 4, 5]"
  using reverse_line_reverses [of 3 "[1, 2, 3, 4, 5]"] by simp

end
