(* ===== verification/Reverse_Tree.thy ===== *)
theory Reverse_Tree
  imports Reverse
begin

text \<open>
  Whole directory trees: \<open>create_reverse_folder\<close> and \<open>fill_folder\<close> of \<open>semestr1/Task3/Task3_1/main.c\<close> make, from a tree laid out
  in the file system, the reversed tree. The loop over the entries of a directory is verified once, in the locale
  \<open>entry_handler\<close>, over any function for the subdirectories that keeps the contract; the recursion of the
  program is an instance at every depth.
\<close>

section \<open>Paths\<close>

text \<open>\<open>under q p\<close>: the path \<open>q\<close> is \<open>p\<close> or leads to something inside it.\<close>

definition under :: "path \<Rightarrow> path \<Rightarrow> bool" where
  "under q p \<longleftrightarrow> q = p \<or> (\<exists>s. q = p @ slash # s)"

lemma under_refl [simp]: "under p p"
  by (simp add: under_def)



lemma base_name_child [simp]: "slash \<notin> set n \<Longrightarrow> base_name (p @ slash # n) = n"
  by (auto simp: base_name_def takeWhile_append)

lemma parent_child [simp]: "slash \<notin> set n \<Longrightarrow> parent (p @ slash # n) = p"
  by (simp add: parent_def)


section \<open>Trees\<close>

datatype tree = T_file "c_char list" | T_dir "(path \<times> tree) list"

fun tree_type :: "tree \<Rightarrow> d_type" where
  "tree_type (T_file b) = DT_REG"
| "tree_type (T_dir es) = DT_DIR"

text \<open>The tree the program is to make: names and contents of files reversed.\<close>

fun rev_tree :: "tree \<Rightarrow> tree" where
  "rev_tree (T_file b) = T_file (rev b)"
| "rev_tree (T_dir es) = T_dir (map (\<lambda>(n, t). (rev n, rev_tree t)) es)"






lemma is_curr_rev [simp]: "is_curr_or_prev_dir (rev n) \<longleftrightarrow> is_curr_or_prev_dir n"
  by (auto simp: is_curr_or_prev_dir_def rev_swap)

lemma tree_type_rev [simp]: "tree_type (rev_tree t) = tree_type t"
  by (cases t) auto

section \<open>One entry\<close>









section \<open>The loop over the entries\<close>







section \<open>Whole trees\<close>










section \<open>Properties\<close>







lemma length_c_str: "length (c_str b) \<le> length b"
  by (simp add: c_str_def length_takeWhile_le)

lemma str_len_cases: "str_len b = Inl OutOfBounds \<or> str_len b = Inr (length (c_str b))"
  by (simp add: str_len_def)

lemma c_str_prefix: "0 \<notin> set s \<Longrightarrow> length s \<le> length (c_str (s @ t))"
  by (auto simp: c_str_def takeWhile_append)

lemma str_cat_overflow:
  assumes "length buf \<le> length (c_str buf) + length (c_str s)"
  shows "str_cat buf s = Inl OutOfBounds"
proof -
  have "min (length s) (length (c_str s)) = length (c_str s)" using length_c_str [of s] by simp
  with assms str_len_cases [of buf] str_len_cases [of s] show ?thesis by (auto simp: str_cat_def put_str_def)
qed

lemma c_str_reverse_line:
  assumes "reverse_line b (length (c_str b)) = Inr b'"
  shows "c_str b' = rev (c_str b)"
proof -
  obtain d where d: "b = c_str b @ d" "d = [] \<or> (\<exists>l. d = 0 # l)"
  proof
    show "b = c_str b @ dropWhile (\<lambda>c. c \<noteq> 0) b" by (simp add: c_str_def)
    show "dropWhile (\<lambda>c. c \<noteq> 0) b = [] \<or> (\<exists>l. dropWhile (\<lambda>c. c \<noteq> 0) b = 0 # l)"
      by (cases "dropWhile (\<lambda>c. c \<noteq> 0) b") (auto simp: dropWhile_eq_Cons_conv)
  qed
  have n: "0 \<notin> set (c_str b)" by (auto simp: c_str_def dest: set_takeWhileD)
  have "b' = rev (c_str b) @ d"
    using assms reverse_line_rev [OF length_c_str, of b] d(1) by (metis append_eq_conv_conj sum.inject(2))
  with d(2) n show ?thesis by auto
qed

lemma length_base_name: "length (base_name p) \<le> length p"
  by (simp add: base_name_def length_takeWhile_le [of _ "rev p", simplified])

lemma base_name_suffix: "take (length p - length (base_name p)) p @ base_name p = p"
proof -
  have "rev p = takeWhile (\<lambda>c. c \<noteq> slash) (rev p) @ dropWhile (\<lambda>c. c \<noteq> slash) (rev p)" by simp
  then have "p = rev (dropWhile (\<lambda>c. c \<noteq> slash) (rev p)) @ base_name p"
    unfolding base_name_def by (metis rev_append rev_rev_ident)
  then show ?thesis by (metis append_eq_conv_conj diff_add_inverse2 length_append)
qed

text \<open>
  C35. \<open>run_reverse\<close> allocates its buffers too short: called with one directory it always goes past the end of a buffer,
  whatever the memory holds, before any directory is made.
\<close>

theorem run_overflows:
  assumes "0 \<notin> set a"
  shows "run_reverse depth env m0 m1 [a] fs = Some (Inl OutOfBounds)"
proof -
  let ?P = "map m1 [0..<length a]"
  let ?R = "map m0 [0..<length a]"
  let ?fl = "length a - length (base_name a)"
  note len = length_base_name [of a]
  have "0 \<notin> set (base_name a)" "0 \<notin> set (take ?fl a)"
    using assms base_name_suffix [of a] by (metis Un_iff set_append)+
  note nb = this
  have "run_loop depth env [a] ?R ?P fs = Some (Inl OutOfBounds)"
  proof (cases "slash \<in> set a")
    case False
    then have base: "base_name a = a" by (auto simp: base_name_def rev_swap takeWhile_eq_all_conv)
    have "str_ncpy ?P a 0 = Inr ?P" "str_ncpy ?R a (length a) = Inr a" "str_len a = Inl OutOfBounds"
      using assms by (simp_all add: str_ncpy_def str_len_def)
    with False base show ?thesis by (simp add: find_name_folder_def put_str_def)
  next
    case True
    let ?P1 = "take ?fl a @ drop ?fl ?P"
    let ?R1 = "base_name a @ drop (length (base_name a)) ?R"
    have f: "find_name_folder a ?P = Inr (?P1, base_name a)" using True by (simp add: find_name_folder_def str_ncpy_def Let_def)
    have r: "str_ncpy ?R (base_name a) (length (base_name a)) = Inr ?R1" using len by (simp add: str_ncpy_def)
    have "str_cat ?P1 b = Inl OutOfBounds" if "reverse_line ?R1 (length (c_str ?R1)) = Inr b" for b
    proof (rule str_cat_overflow)
      have "length (take ?fl a) \<le> length (c_str ?P1)" "length (base_name a) \<le> length (c_str ?R1)"
        by (rule c_str_prefix [OF nb(2)], rule c_str_prefix [OF nb(1)])
      then show "length ?P1 \<le> length (c_str ?P1) + length (c_str b)"
        using c_str_reverse_line [OF that] len by simp
    qed
    moreover have "reverse_line ?R1 (length (c_str ?R1)) = Inr (rev (take (length (c_str ?R1)) ?R1) @ drop (length (c_str ?R1)) ?R1)"
      by (rule reverse_line_rev) (rule length_c_str)
    ultimately show ?thesis using f r str_len_cases [of ?R1] by auto
  qed
  moreover have "maximum_size_path [a] 0 = length a" by simp
  ultimately show ?thesis by (simp only: run_reverse_def Let_def list.distinct if_False)
qed

theorem run_overflows_witness: "run_reverse 1 sample_environment (\<lambda>i. 0) (\<lambda>i. 0) [[0x2E, slash, 0x61, 0x62]] sample_fs = Some (Inl OutOfBounds)"
  by (rule run_overflows) simp

end
