(* ===== verification/Set_Commands.thy ===== *)
theory Set_Commands
  imports Reverse
begin

unbundle bit_operations_syntax

text \<open>
  The commands of \<open>semestr1/Task3/Task3_2\<close>: \<open>set_commands.c\<close>, \<open>set_commands.h\<close> and \<open>main.c\<close>. The program runs under many names and
  picks the command by its own name.

  The file system has names and inodes, as the commands make hard and symbolic links: a list of paths with
  inode numbers, and a map from inode numbers to inodes. The system calls are functions on it; what else they may answer
  is in the field \<open>denied\<close> and in the record \<open>io\<close>. What a command prints is a list of items; messages on \<open>stderr\<close> are left
  out.
\<close>

section \<open>The file system\<close>

type_synonym mode_t = "32 word"

datatype content = Directory | Regular "c_char list" | Symlink path

record inode =
  content :: content
  mode :: mode_t
  nlink :: nat

record fsys =
  names :: "(path \<times> nat) list"
  nodes :: "nat \<rightharpoonup> inode"
  next_ino :: nat
  umask :: mode_t
  denied :: "path \<Rightarrow> bool"

definition lookup :: "fsys \<Rightarrow> path \<Rightarrow> nat option" where
  "lookup fs p = map_of (names fs) p"

definition node_at :: "fsys \<Rightarrow> path \<Rightarrow> inode option" where
  "node_at fs p = Option.bind (lookup fs p) (nodes fs)"

text \<open>
  Following symbolic links, at most forty of them: the path of the file they lead to, which need not exist. A relative target counts from
  the directory of the link.
\<close>

fun follow :: "nat \<Rightarrow> fsys \<Rightarrow> path \<Rightarrow> path option" where
  "follow n fs p = (case map_option content (node_at fs p) of
     Some (Symlink t) \<Rightarrow> (case n of 0 \<Rightarrow> None
       | Suc n' \<Rightarrow> follow n' fs (if take 1 t = [slash] \<or> slash \<notin> set p then t else parent p @ slash # t))
   | _ \<Rightarrow> Some p)"

declare follow.simps [simp del]

definition MAXSYMLINKS :: nat where "MAXSYMLINKS = 40"

definition sys_stat :: "fsys \<Rightarrow> path \<Rightarrow> inode option" where
  "sys_stat fs p = (if denied fs p then None else Option.bind (follow MAXSYMLINKS fs p) (node_at fs))"

definition is_folder :: "fsys \<Rightarrow> path \<Rightarrow> bool" where
  "is_folder fs p \<longleftrightarrow> map_option content (Option.bind (follow MAXSYMLINKS fs p) (node_at fs)) = Some Directory"

text \<open>A new file with its first name, one more name, and one name less.\<close>

definition create :: "fsys \<Rightarrow> path \<Rightarrow> content \<Rightarrow> mode_t \<Rightarrow> fsys" where
  "create fs p c m = fs\<lparr>names := (p, next_ino fs) # names fs,
     nodes := (nodes fs)(next_ino fs \<mapsto> \<lparr>content = c, mode = m, nlink = 1\<rparr>), next_ino := next_ino fs + 1\<rparr>"

definition add_name :: "fsys \<Rightarrow> path \<Rightarrow> nat \<Rightarrow> fsys" where
  "add_name fs p i = fs\<lparr>names := (p, i) # names fs,
     nodes := (nodes fs)(i := map_option (\<lambda>n. n\<lparr>nlink := nlink n + 1\<rparr>) (nodes fs i))\<rparr>"

definition drop_name :: "fsys \<Rightarrow> path \<Rightarrow> nat \<Rightarrow> fsys" where
  "drop_name fs p i = fs\<lparr>names := filter (\<lambda>(q, j). q \<noteq> p) (names fs),
     nodes := (nodes fs)(i := (case nodes fs i of None \<Rightarrow> None
       | Some n \<Rightarrow> if nlink n = 1 then None else Some (n\<lparr>nlink := nlink n - 1\<rparr>)))\<rparr>"

definition free_place :: "fsys \<Rightarrow> path \<Rightarrow> bool" where
  "free_place fs p \<longleftrightarrow> \<not> denied fs p \<and> lookup fs p = None \<and> is_folder fs (parent p)"

section \<open>System calls\<close>

text \<open>\<open>None\<close> is \<open>-1\<close>.\<close>

definition sys_mkdir :: "fsys \<Rightarrow> path \<Rightarrow> mode_t \<Rightarrow> fsys option" where
  "sys_mkdir fs p m = (if free_place fs p then Some (create fs p Directory (m AND NOT (umask fs))) else None)"

definition sys_rmdir :: "fsys \<Rightarrow> path \<Rightarrow> fsys option" where
  "sys_rmdir fs p = (case lookup fs p of None \<Rightarrow> None
     | Some i \<Rightarrow> if denied fs p \<or> map_option content (nodes fs i) \<noteq> Some Directory \<or> p = dot \<or>
           list_ex (\<lambda>(q, j). parent q = p \<and> q \<noteq> p) (names fs)
         then None else Some (drop_name fs p i))"

definition sys_unlink :: "fsys \<Rightarrow> path \<Rightarrow> fsys option" where
  "sys_unlink fs p = (case lookup fs p of None \<Rightarrow> None
     | Some i \<Rightarrow> if denied fs p \<or> map_option content (nodes fs i) = Some Directory then None else Some (drop_name fs p i))"

definition sys_remove :: "fsys \<Rightarrow> path \<Rightarrow> fsys option" where
  "sys_remove fs p = (if map_option content (node_at fs p) = Some Directory then sys_rmdir fs p else sys_unlink fs p)"

definition sys_symlink :: "fsys \<Rightarrow> path \<Rightarrow> path \<Rightarrow> fsys option" where
  "sys_symlink fs target p = (if free_place fs p \<and> target \<noteq> [] then Some (create fs p (Symlink target) 0x1FF) else None)"

definition sys_link :: "fsys \<Rightarrow> path \<Rightarrow> path \<Rightarrow> fsys option" where
  "sys_link fs old new = (case lookup fs old of None \<Rightarrow> None
     | Some i \<Rightarrow> if denied fs old \<or> \<not> free_place fs new \<or> map_option content (nodes fs i) = Some Directory then None
         else Some (add_name fs new i))"

definition sys_chmod :: "fsys \<Rightarrow> path \<Rightarrow> mode_t \<Rightarrow> fsys option" where
  "sys_chmod fs p m = (if denied fs p then None else
     (case Option.bind (follow MAXSYMLINKS fs p) (lookup fs) of None \<Rightarrow> None
      | Some i \<Rightarrow> Some (fs\<lparr>nodes := (nodes fs)(i := map_option (\<lambda>n. n\<lparr>mode := m\<rparr>) (nodes fs i))\<rparr>)))"

definition sys_readlink :: "fsys \<Rightarrow> path \<Rightarrow> nat \<Rightarrow> c_char list option" where
  "sys_readlink fs p n = (case map_option content (node_at fs p) of
     Some (Symlink t) \<Rightarrow> if denied fs p then None else Some (take n t) | _ \<Rightarrow> None)"

text \<open>\<open>fopen\<close> with mode a+: opens a file or creates it; the file system and the contents.\<close>

definition fopen_a :: "fsys \<Rightarrow> path \<Rightarrow> (fsys \<times> c_char list) option" where
  "fopen_a fs p = (if denied fs p then None else
     (case follow MAXSYMLINKS fs p of None \<Rightarrow> None
      | Some q \<Rightarrow> (case node_at fs q of
          Some n \<Rightarrow> (case content n of Regular b \<Rightarrow> Some (fs, b) | _ \<Rightarrow> None)
        | None \<Rightarrow> if free_place fs q then Some (create fs q (Regular []) (0x1B6 AND NOT (umask fs)), []) else None)))"

text \<open>
  The rest of the environment: where a file opened with a+ is positioned at first (implementation-defined, the
  beginning or the end), the results of \<open>fseek\<close>, \<open>fclose\<close> and \<open>closedir\<close>, of the \<open>k\<close>-th \<open>fread\<close>, the number of bytes the \<open>k\<close>-th
  \<open>fwrite\<close> takes at most, the entries \<open>readdir\<close> delivers, and the result of \<open>rand\<close>.
\<close>

record io =
  tell0 :: "c_char list \<Rightarrow> nat"
  fseek_ok :: bool
  fclose_ok :: bool
  closedir_ok :: bool
  fread_ok :: "nat \<Rightarrow> bool"
  fwrite_max :: "nat \<Rightarrow> nat"
  dir_entries :: "path \<Rightarrow> path list"
  rand_val :: nat

section \<open>The commands\<close>

datatype return_status = ERROR_HAS_OCCURRED | OKEY

datatype out = Out_num nat | Out_bytes "c_char list" | Out_line path



definition DEFAULT_DIR :: mode_t where "DEFAULT_DIR = 0x1FD"
definition ALL_FOR_ALL :: nat where "ALL_FOR_ALL = 0x1FF"
definition CMD_BUFFER_SIZE :: nat where "CMD_BUFFER_SIZE = 256"

text \<open>A command that is one system call and the test of its result.\<close>

definition of_call :: "fsys \<Rightarrow> fsys option \<Rightarrow> return_status \<times> fsys \<times> out list" where
  "of_call fs r = (case r of None \<Rightarrow> (ERROR_HAS_OCCURRED, fs, []) | Some fs' \<Rightarrow> (OKEY, fs', []))"

definition make_dir :: "fsys \<Rightarrow> path \<Rightarrow> return_status \<times> fsys \<times> out list" where
  "make_dir fs name_dir = of_call fs (sys_mkdir fs name_dir DEFAULT_DIR)"

definition is_dir :: "fsys \<Rightarrow> path \<Rightarrow> return_status" where
  "is_dir fs name_dir = (case sys_stat fs name_dir of None \<Rightarrow> ERROR_HAS_OCCURRED
     | Some n \<Rightarrow> if content n \<noteq> Directory then ERROR_HAS_OCCURRED else OKEY)"

definition print_dir :: "io \<Rightarrow> fsys \<Rightarrow> path \<Rightarrow> return_status \<times> fsys \<times> out list" where
  "print_dir io fs path_name_dir = (if denied fs path_name_dir \<or> \<not> is_folder fs path_name_dir then (ERROR_HAS_OCCURRED, fs, [])
     else (if closedir_ok io then OKEY else ERROR_HAS_OCCURRED, fs, map Out_line (dir_entries io path_name_dir)))"

definition remove_dir :: "fsys \<Rightarrow> path \<Rightarrow> return_status \<times> fsys \<times> out list" where
  "remove_dir fs name_dir = of_call fs (sys_rmdir fs name_dir)"

definition touch_file :: "io \<Rightarrow> fsys \<Rightarrow> path \<Rightarrow> return_status \<times> fsys \<times> out list" where
  "touch_file io fs name_file = (case fopen_a fs name_file of None \<Rightarrow> (ERROR_HAS_OCCURRED, fs, [])
     | Some (fs', b) \<Rightarrow> (if fclose_ok io then OKEY else ERROR_HAS_OCCURRED, fs', []))"

definition is_file_reg :: "fsys \<Rightarrow> path \<Rightarrow> return_status" where
  "is_file_reg fs name_file = (case sys_stat fs name_file of None \<Rightarrow> ERROR_HAS_OCCURRED
     | Some n \<Rightarrow> (case content n of Regular b \<Rightarrow> OKEY | _ \<Rightarrow> ERROR_HAS_OCCURRED))"

text \<open>
  \<open>write_to_file_implements\<close>: \<open>k\<close> counts the calls of \<open>fwrite\<close>, \<open>out\<close> is what they wrote. \<open>fwrite\<close> returns a count, so the test
  for a negative result never succeeds, and when nothing can be written the loop goes on for ever (\<open>None\<close>).
\<close>

partial_function (option) write_loop :: "io \<Rightarrow> c_char list \<Rightarrow> nat \<Rightarrow> nat \<Rightarrow> nat \<Rightarrow> c_char list \<Rightarrow>
    (return_status \<times> nat \<times> c_char list) option" where
  "write_loop io buffer size_written k sum_written out =
     (if sum_written < size_written then
        let written = min (fwrite_max io k) (size_written - sum_written)
        in write_loop io buffer size_written (Suc k) (sum_written + written) (out @ take written (drop sum_written buffer))
      else Some (OKEY, k, out))"

definition write_to_file_implements :: "io \<Rightarrow> c_char list \<Rightarrow> nat \<Rightarrow> nat \<Rightarrow> (return_status \<times> nat \<times> c_char list) option" where
  "write_to_file_implements io buffer size_written k = write_loop io buffer size_written k 0 []"

text \<open>The loop of \<open>write_file\<close>: \<open>r\<close> counts the calls of \<open>fread\<close>.\<close>

function read_loop :: "io \<Rightarrow> c_char list \<Rightarrow> nat \<Rightarrow> nat \<Rightarrow> nat \<Rightarrow> nat \<Rightarrow> c_char list \<Rightarrow> (return_status \<times> c_char list) option" where
  "read_loop io b file_size bytes_left r k out =
     (if bytes_left = 0 then Some (OKEY, out)
      else
        let bytes_to_read = (if bytes_left < CMD_BUFFER_SIZE then bytes_left else CMD_BUFFER_SIZE);
            buffer = take bytes_to_read (drop (file_size - bytes_left) b);
            bytes_read = length buffer
        in if bytes_read < bytes_to_read \<or> \<not> fread_ok io r then Some (ERROR_HAS_OCCURRED, out)
           else (case write_to_file_implements io buffer bytes_read k of None \<Rightarrow> None
             | Some (ERROR_HAS_OCCURRED, k', w) \<Rightarrow> Some (ERROR_HAS_OCCURRED, out @ w)
             | Some (OKEY, k', w) \<Rightarrow> read_loop io b file_size (bytes_left - bytes_read) (Suc r) k' (out @ w)))"
  by pat_completeness auto
termination
  by (relation "measure (\<lambda>(io, b, file_size, bytes_left, r, k, out). bytes_left)")
    (auto simp: CMD_BUFFER_SIZE_def split: if_splits)

declare read_loop.simps [simp del]

text \<open>\<open>write_file\<close>: the flag says that the function has closed the file itself.\<close>

definition write_file :: "io \<Rightarrow> c_char list \<Rightarrow> (return_status \<times> bool \<times> out list) option" where
  "write_file io b = (let file_size = tell0 io b in
     if \<not> fseek_ok io then Some (ERROR_HAS_OCCURRED, True, [Out_num file_size])
     else map_option (\<lambda>(st, w). (st, False, [Out_num file_size, Out_bytes w])) (read_loop io b file_size file_size 0 0 []))"

text \<open>Closing a file that is closed already is the fault \<open>BadFree\<close>.\<close>

definition print_opened :: "io \<Rightarrow> fsys \<times> c_char list \<Rightarrow> (fault + return_status \<times> fsys \<times> out list) option" where
  "print_opened io f = (case f of (fs, b) \<Rightarrow> (case write_file io b of None \<Rightarrow> None
     | Some (st, closed, outs) \<Rightarrow> Some (if closed then Inl BadFree else Inr (st, fs, outs))))"

definition print_file :: "io \<Rightarrow> fsys \<Rightarrow> path \<Rightarrow> (fault + return_status \<times> fsys \<times> out list) option" where
  "print_file io fs path_name_file =
     (if is_file_reg fs path_name_file = ERROR_HAS_OCCURRED then Some (Inr (ERROR_HAS_OCCURRED, fs, []))
      else (case fopen_a fs path_name_file of None \<Rightarrow> Some (Inr (ERROR_HAS_OCCURRED, fs, []))
        | Some f \<Rightarrow> print_opened io f))"

definition remove_file :: "fsys \<Rightarrow> path \<Rightarrow> return_status \<times> fsys \<times> out list" where
  "remove_file fs path_name_file = of_call fs (sys_remove fs path_name_file)"

definition is_sym_link :: "fsys \<Rightarrow> path \<Rightarrow> return_status" where
  "is_sym_link fs sym_link = (case sys_stat fs sym_link of None \<Rightarrow> ERROR_HAS_OCCURRED
     | Some n \<Rightarrow> (case content n of Symlink t \<Rightarrow> OKEY | _ \<Rightarrow> ERROR_HAS_OCCURRED))"

definition chars :: "string \<Rightarrow> c_char list" where
  "chars s = map of_char s"

definition ln_symbol_link :: "fsys \<Rightarrow> path \<Rightarrow> return_status \<times> fsys \<times> out list" where
  "ln_symbol_link fs name_file = of_call fs (sys_symlink fs name_file (chars ''symbol_link''))"

definition print_sym_link :: "io \<Rightarrow> fsys \<Rightarrow> path \<Rightarrow> (return_status \<times> fsys \<times> out list) option" where
  "print_sym_link io fs sym_link =
     (if is_sym_link fs sym_link = ERROR_HAS_OCCURRED then Some (ERROR_HAS_OCCURRED, fs, [])
      else (case sys_readlink fs sym_link CMD_BUFFER_SIZE of None \<Rightarrow> Some (ERROR_HAS_OCCURRED, fs, [])
        | Some buffer \<Rightarrow> map_option (\<lambda>(st, k, w). (st, fs, [Out_bytes w]))
            (write_to_file_implements io buffer (length buffer) 0)))"

text \<open>\<open>readlink\<close> writes no terminator; \<open>junk\<close> is what follows in the buffer.\<close>

definition read_file_from_symbol_link :: "io \<Rightarrow> (nat \<Rightarrow> c_char) \<Rightarrow> fsys \<Rightarrow> path \<Rightarrow> (fault + return_status \<times> fsys \<times> out list) option" where
  "read_file_from_symbol_link io junk fs sym_link =
     (if is_sym_link fs sym_link = ERROR_HAS_OCCURRED then Some (Inr (ERROR_HAS_OCCURRED, fs, []))
      else (case sys_readlink fs sym_link CMD_BUFFER_SIZE of None \<Rightarrow> Some (Inr (ERROR_HAS_OCCURRED, fs, []))
        | Some t \<Rightarrow> (let buffer = t @ map junk [length t..<CMD_BUFFER_SIZE] in
            if 0 \<notin> set buffer then Some (Inl OutOfBounds)
            else (case fopen_a fs (c_str buffer) of None \<Rightarrow> Some (Inr (ERROR_HAS_OCCURRED, fs, []))
              | Some f \<Rightarrow> print_opened io f))))"

definition remove_sym_link :: "fsys \<Rightarrow> path \<Rightarrow> return_status \<times> fsys \<times> out list" where
  "remove_sym_link fs sym_link = (if is_sym_link fs sym_link = ERROR_HAS_OCCURRED then (ERROR_HAS_OCCURRED, fs, [])
     else remove_file fs sym_link)"

definition ln_hard_link :: "fsys \<Rightarrow> path \<Rightarrow> return_status \<times> fsys \<times> out list" where
  "ln_hard_link fs hard_link = of_call fs (sys_link fs hard_link (chars ''hard_link''))"

definition hard_unlink :: "fsys \<Rightarrow> path \<Rightarrow> return_status \<times> fsys \<times> out list" where
  "hard_unlink fs hard_link = of_call fs (sys_unlink fs hard_link)"

text \<open>\<open>get_permissions\<close>: the ten bytes of the block; the first is written twice. A character is its code.\<close>

abbreviation flag :: "mode_t \<Rightarrow> mode_t \<Rightarrow> c_char \<Rightarrow> c_char" where
  "flag m b c \<equiv> (if m AND b \<noteq> 0 then c else 0x2D)"

definition get_permissions :: "inode \<Rightarrow> c_char list" where
  "get_permissions n = (let m = mode n;
      permissions = replicate 10 0;
      p0 = permissions[0 := (if content n = Directory then 0x64 else 0x2D)];
      p1 = p0[0 := flag m 0x100 0x72, 1 := flag m 0x80 0x77, 2 := flag m 0x40 0x78];
      p2 = p1[3 := flag m 0x20 0x72, 4 := flag m 0x10 0x77, 5 := flag m 0x40 0x78];
      p3 = p2[6 := flag m 0x4 0x72, 7 := flag m 0x2 0x77, 8 := flag m 0x1 0x78]
    in p3[9 := (if m AND 0x200 \<noteq> 0 then 0x74 else 0x20)])"

text \<open>\<open>print_permitted\<close>: \<open>printf\<close> with the format s reads up to a null byte.\<close>

definition print_permitted :: "fsys \<Rightarrow> path \<Rightarrow> fault + return_status \<times> fsys \<times> out list" where
  "print_permitted fs name_file = (case sys_stat fs name_file of None \<Rightarrow> Inr (ERROR_HAS_OCCURRED, fs, [])
     | Some n \<Rightarrow> fbind (str_len (get_permissions n)) (\<lambda>k.
         Inr (OKEY, fs, [Out_bytes (take k (get_permissions n)), Out_num (nlink n)])))"

definition change_permitted :: "io \<Rightarrow> fsys \<Rightarrow> path \<Rightarrow> return_status \<times> fsys \<times> out list" where
  "change_permitted io fs name_file = (case sys_stat fs name_file of None \<Rightarrow> (ERROR_HAS_OCCURRED, fs, [])
     | Some n \<Rightarrow> of_call fs (sys_chmod fs name_file (of_nat (rand_val io mod ALL_FOR_ALL))))"

section \<open>main.c\<close>

text \<open>\<open>get_name_command\<close>: the first line of the status file of the process, behind its first six characters.\<close>

definition get_name_command :: "string \<Rightarrow> string" where
  "get_name_command line = drop 6 line"

definition command_is :: "string \<Rightarrow> string \<Rightarrow> bool" where
  "command_is name_command s \<longleftrightarrow> name_command = s @ [CHR 0x0A]"

definition selection_command :: "io \<Rightarrow> (nat \<Rightarrow> c_char) \<Rightarrow> string \<Rightarrow> fsys \<Rightarrow> path \<Rightarrow> (fault + return_status \<times> fsys \<times> out list) option" where
  "selection_command io junk name_command fs name_util =
     (if command_is name_command ''mkdir'' then Some (Inr (make_dir fs name_util))
      else if command_is name_command ''print_dir'' then Some (Inr (print_dir io fs name_util))
      else if command_is name_command ''rmdir'' then Some (Inr (remove_dir fs name_util))
      else if command_is name_command ''touch_file'' then Some (Inr (touch_file io fs name_util))
      else if command_is name_command ''print_file'' then print_file io fs name_util
      else if command_is name_command ''remove_file'' then Some (Inr (remove_file fs name_util))
      else if command_is name_command ''ln_symbol_link'' then Some (Inr (ln_symbol_link fs name_util))
      else if command_is name_command ''print_sym_link'' then map_option Inr (print_sym_link io fs name_util)
      else if command_is name_command ''read_file_from_symbol_link'' then read_file_from_symbol_link io junk fs name_util
      else if command_is name_command ''remove_sym_link'' then Some (Inr (remove_sym_link fs name_util))
      else if command_is name_command ''ln_hard_link'' then Some (Inr (ln_hard_link fs name_util))
      else if command_is name_command ''hard_unlink'' then Some (Inr (hard_unlink fs name_util))
      else if command_is name_command ''print_permitted'' then Some (print_permitted fs name_util)
      else if command_is name_command ''change_permitted'' then Some (Inr (change_permitted io fs name_util))
      else Some (Inr (ERROR_HAS_OCCURRED, fs, [])))"

text \<open>\<open>main\<close>, with \<open>argc\<close>, the line of the status file and the argument; the exit code is \<open>-1\<close> modulo 256 after an error.\<close>

definition commands_main :: "io \<Rightarrow> (nat \<Rightarrow> c_char) \<Rightarrow> nat \<Rightarrow> string \<Rightarrow> fsys \<Rightarrow> path \<Rightarrow> (fault + nat \<times> fsys \<times> out list) option" where
  "commands_main io junk argc line fs arg =
     (if argc \<noteq> 2 then Some (Inr (1, fs, []))
      else map_option (\<lambda>r. fbind r (\<lambda>(st, fs', outs). Inr (if st = OKEY then 0 else 255, fs', outs)))
        (selection_command io junk (get_name_command line) fs arg))"

end
