(* ===== verification/Set_Commands_Links.thy ===== *)
theory Set_Commands_Links
  imports Set_Commands
begin

unbundle bit_operations_syntax

text \<open>
  What the commands of \<open>Set_Commands\<close> achieve. The invariant (link counts, unique paths, the working directory) is proved once
  for every command in the locale \<open>fs_invariant\<close>, from the four operations that change the file system; then the output of
  \<open>print_file\<close>, the commands for symbolic links, the permission string, the choice of the command and the commands that undo each other.
\<close>

section \<open>Names and inodes\<close>

text \<open>
  The invariant of the file system: no path occurs twice, every name has its inode, and the link count of an inode is
  the number of its names.
\<close>

definition uses :: "(path \<times> nat) list \<Rightarrow> nat \<Rightarrow> nat" where
  "uses l i = length (filter (\<lambda>(p, j). j = i) l)"

definition fs_wf :: "fsys \<Rightarrow> bool" where
  "fs_wf fs \<longleftrightarrow> distinct (map fst (names fs)) \<and> (\<forall>(p, i) \<in> set (names fs). nodes fs i \<noteq> None) \<and>
     (\<forall>i n. nodes fs i = Some n \<longrightarrow> i < next_ino fs \<and> 0 < uses (names fs) i \<and> nlink n = uses (names fs) i)"

text \<open>The working directory is there.\<close>

definition cwd_ok :: "fsys \<Rightarrow> bool" where
  "cwd_ok fs \<longleftrightarrow> map_option content (node_at fs dot) = Some Directory"

lemma cwd_ok_iff: "cwd_ok fs \<longleftrightarrow> (\<exists>k n. lookup fs dot = Some k \<and> nodes fs k = Some n \<and> content n = Directory)"
  by (auto simp: cwd_ok_def node_at_def bind_eq_Some_conv)

lemma lookup_in: "lookup fs p = Some i \<Longrightarrow> (p, i) \<in> set (names fs)"
  by (simp add: lookup_def map_of_SomeD)

lemma wf_lookup: "fs_wf fs \<Longrightarrow> lookup fs p = Some i \<Longrightarrow> \<exists>n. nodes fs i = Some n"
  using lookup_in by (fastforce simp: fs_wf_def)

lemma wf_fresh: "fs_wf fs \<Longrightarrow> nodes fs (next_ino fs) = None"
  by (cases "nodes fs (next_ino fs)") (auto simp: fs_wf_def)

lemma lookup_none: "lookup fs p = None \<longleftrightarrow> p \<notin> fst ` set (names fs)"
  by (simp add: lookup_def map_of_eq_None_iff)

lemma uses_Cons [simp]: "uses ((p, j) # l) i = (if j = i then Suc (uses l i) else uses l i)"
  by (simp add: uses_def)

lemma uses_eq_0: "uses l i = 0 \<longleftrightarrow> (\<forall>(p, j) \<in> set l. j \<noteq> i)"
  by (auto simp: uses_def filter_empty_conv)

lemma wf_no_name_fresh: "fs_wf fs \<Longrightarrow> uses (names fs) (next_ino fs) = 0"
  using wf_fresh by (fastforce simp: fs_wf_def uses_eq_0)

lemma uses_drop:
  "distinct (map fst l) \<Longrightarrow> map_of l p = Some i \<Longrightarrow>
    uses l k = uses (filter (\<lambda>(q, j). q \<noteq> p) l) k + (if k = i then 1 else 0)"
proof (induction l)
  case (Cons x l)
  obtain q j where x: "x = (q, j)" by (cases x)
  show ?case
  proof (cases "q = p")
    case True
    with Cons.prems x have "p \<notin> fst ` set l" by simp
    then have "filter (\<lambda>(q, j). q \<noteq> p) l = l" by (force simp: filter_id_conv)
    with True Cons.prems x show ?thesis by auto
  next
    case False
    with Cons x show ?thesis by auto
  qed
qed simp

lemma wf_create:
  assumes "fs_wf fs" and "free_place fs p"
  shows "fs_wf (create fs p c m)"
  using assms wf_fresh [OF assms(1)] wf_no_name_fresh [OF assms(1)]
  unfolding fs_wf_def create_def free_place_def by (auto simp: lookup_none less_Suc_eq)

lemma wf_add_name:
  assumes "fs_wf fs" and "lookup fs p = Some i" and "free_place fs q"
  shows "fs_wf (add_name fs q i)"
  using assms wf_lookup [OF assms(1,2)]
  unfolding fs_wf_def add_name_def free_place_def by (auto simp: lookup_none)

lemma wf_drop_name:
  assumes wf: "fs_wf fs" and p: "lookup fs p = Some i"
  shows "fs_wf (drop_name fs p i)"
proof -
  from wf have d: "distinct (map fst (names fs))" by (simp add: fs_wf_def)
  let ?l = "filter (\<lambda>(q, j). q \<noteq> p) (names fs)"
  note c = uses_drop [OF d p [unfolded lookup_def]]
  obtain n where n: "nodes fs i = Some n" using wf_lookup [OF wf p] by blast
  have nl: "nlink n = uses ?l i + 1" using wf n c [of i] by (simp add: fs_wf_def)
  have d': "distinct (map fst ?l)" using d by (simp add: distinct_map_filter)
  have in': "nodes fs k \<noteq> None" if "(q, k) \<in> set ?l" for q k using wf that by (auto simp: fs_wf_def)
  have other: "k < next_ino fs \<and> 0 < uses ?l k \<and> nlink m = uses ?l k" if "nodes fs k = Some m" "k \<noteq> i" for k m
  proof -
    have "uses ?l k = uses (names fs) k" using c [of k] that(2) by simp
    with wf that(1) show ?thesis by (simp add: fs_wf_def)
  qed
  have i: "i < next_ino fs" using wf n by (auto simp: fs_wf_def)
  show ?thesis
  proof (cases "nlink n = 1")
    case True
    with nl have "\<forall>(q, k) \<in> set ?l. k \<noteq> i" by (simp add: uses_eq_0)
    with d' in' other True n show ?thesis unfolding fs_wf_def drop_name_def by auto
  next
    case False
    with d' in' other i nl n show ?thesis unfolding fs_wf_def drop_name_def by auto
  qed
qed

lemma wf_set_mode: "fs_wf fs \<Longrightarrow> fs_wf (fs\<lparr>nodes := (nodes fs)(i := map_option (\<lambda>n. n\<lparr>mode := m\<rparr>) (nodes fs i))\<rparr>)"
  unfolding fs_wf_def by (auto split: if_splits)

section \<open>What every command keeps\<close>

text \<open>
  The commands change the file system only through four operations, each under a guard. A property that these keep is kept by
  every command.
\<close>

locale fs_invariant =
  fixes inv :: "fsys \<Rightarrow> bool"
  assumes inv_create: "inv fs \<Longrightarrow> free_place fs p \<Longrightarrow> inv (create fs p c m)"
    and inv_add_name: "inv fs \<Longrightarrow> lookup fs p = Some i \<Longrightarrow> free_place fs q \<Longrightarrow> inv (add_name fs q i)"
    and inv_drop_name: "inv fs \<Longrightarrow> lookup fs p = Some i \<Longrightarrow> p \<noteq> dot \<or> map_option content (nodes fs i) \<noteq> Some Directory \<Longrightarrow>
      inv (drop_name fs p i)"
    and inv_set_mode: "inv fs \<Longrightarrow> inv (fs\<lparr>nodes := (nodes fs)(i := map_option (\<lambda>n. n\<lparr>mode := m\<rparr>) (nodes fs i))\<rparr>)"
begin

lemma of_call_keeps:
  assumes "inv fs" and "\<And>fs'. r = Some fs' \<Longrightarrow> inv fs'"
  shows "inv (fst (snd (of_call fs r)))"
  using assms by (auto simp: of_call_def split: option.splits)

lemma rmdir_keeps: "inv fs \<Longrightarrow> sys_rmdir fs p = Some fs' \<Longrightarrow> inv fs'"
  by (auto simp: sys_rmdir_def split: option.splits if_splits intro: inv_drop_name)

lemma unlink_keeps: "inv fs \<Longrightarrow> sys_unlink fs p = Some fs' \<Longrightarrow> inv fs'"
  by (auto simp: sys_unlink_def split: option.splits if_splits intro: inv_drop_name)

lemma remove_keeps: "inv fs \<Longrightarrow> sys_remove fs p = Some fs' \<Longrightarrow> inv fs'"
  using rmdir_keeps [of fs p fs'] unlink_keeps [of fs p fs'] by (simp add: sys_remove_def split: if_splits)

lemma fopen_keeps: "inv fs \<Longrightarrow> fopen_a fs p = Some (fs', b) \<Longrightarrow> inv fs'"
  using inv_create by (auto simp: fopen_a_def split: option.splits content.splits if_splits)

lemma print_opened_keeps:
  assumes "inv fs" and "fopen_a fs p = Some f" and "print_opened io f = Some (Inr (st, fs', outs))"
  shows "inv fs'"
proof -
  obtain fs1 b where f: "f = (fs1, b)" by (cases f)
  with assms(3) have "fs' = fs1" by (auto simp: print_opened_def split: option.splits if_splits)
  with fopen_keeps assms(1,2) f show ?thesis by blast
qed

lemma plain_keeps:
  assumes "inv fs"
  shows "inv (fst (snd (make_dir fs p)))" "inv (fst (snd (remove_dir fs p)))" "inv (fst (snd (remove_file fs p)))"
    "inv (fst (snd (ln_symbol_link fs p)))" "inv (fst (snd (remove_sym_link fs p)))" "inv (fst (snd (ln_hard_link fs p)))"
    "inv (fst (snd (hard_unlink fs p)))" "inv (fst (snd (print_dir io fs p)))" "inv (fst (snd (touch_file io fs p)))"
    "inv (fst (snd (change_permitted io fs p)))"
proof -
  show rm: "inv (fst (snd (remove_file fs p)))"
    unfolding remove_file_def using assms remove_keeps by (intro of_call_keeps) auto
  show "inv (fst (snd (remove_sym_link fs p)))" using assms rm by (simp add: remove_sym_link_def)
  show "inv (fst (snd (make_dir fs p)))" unfolding make_dir_def
    using assms inv_create by (intro of_call_keeps) (auto simp: sys_mkdir_def split: if_splits)
  show "inv (fst (snd (remove_dir fs p)))" unfolding remove_dir_def using assms rmdir_keeps by (intro of_call_keeps) auto
  show "inv (fst (snd (ln_symbol_link fs p)))" unfolding ln_symbol_link_def
    using assms inv_create by (intro of_call_keeps) (auto simp: sys_symlink_def split: if_splits)
  show "inv (fst (snd (ln_hard_link fs p)))" unfolding ln_hard_link_def
    using assms inv_add_name by (intro of_call_keeps) (auto simp: sys_link_def split: option.splits if_splits)
  show "inv (fst (snd (hard_unlink fs p)))" unfolding hard_unlink_def using assms unlink_keeps by (intro of_call_keeps) auto
  show "inv (fst (snd (print_dir io fs p)))" using assms by (simp add: print_dir_def)
  show "inv (fst (snd (touch_file io fs p)))"
    using assms fopen_keeps by (auto simp: touch_file_def split: option.splits)
  show "inv (fst (snd (change_permitted io fs p)))"
  proof (cases "sys_stat fs p")
    case None
    with assms show ?thesis by (simp add: change_permitted_def)
  next
    case (Some n)
    have "inv (fst (snd (of_call fs (sys_chmod fs p m))))" for m
      using assms inv_set_mode by (intro of_call_keeps) (auto simp: sys_chmod_def split: option.splits if_splits)
    with Some show ?thesis by (simp add: change_permitted_def)
  qed
qed

lemma other_keeps:
  assumes "inv fs"
  shows "print_file io fs p = Some (Inr (st, fs', outs)) \<Longrightarrow> inv fs'"
    "print_sym_link io fs p = Some (st, fs', outs) \<Longrightarrow> inv fs'"
    "read_file_from_symbol_link io junk fs p = Some (Inr (st, fs', outs)) \<Longrightarrow> inv fs'"
    "print_permitted fs p = Inr (st, fs', outs) \<Longrightarrow> inv fs'"
proof -
  note f = print_opened_keeps [OF assms]
  show "print_file io fs p = Some (Inr (st, fs', outs)) \<Longrightarrow> inv fs'"
    using assms f by (auto simp: print_file_def split: if_splits option.splits)
  show "print_sym_link io fs p = Some (st, fs', outs) \<Longrightarrow> inv fs'"
    using assms by (auto simp: print_sym_link_def split: if_splits option.splits)
  show "read_file_from_symbol_link io junk fs p = Some (Inr (st, fs', outs)) \<Longrightarrow> inv fs'"
    using assms f by (auto simp: read_file_from_symbol_link_def Let_def split: if_splits option.splits)
  show "print_permitted fs p = Inr (st, fs', outs) \<Longrightarrow> inv fs'"
    using assms by (auto simp: print_permitted_def fbind_def split: option.splits sum.splits)
qed

lemma selection_keeps:
  assumes "inv fs" and r: "selection_command io junk name_command fs p = Some (Inr (st, fs', outs))"
  shows "inv fs'"
proof -
  define keeps where "keeps x \<longleftrightarrow> (\<forall>st fs' outs. x = Some (Inr (st, fs', outs)) \<longrightarrow> inv fs')"
    for x :: "(fault + return_status \<times> fsys \<times> out list) option"
  have plain: "keeps (Some (Inr x))" if "inv (fst (snd x))" for x using that by (cases x) (auto simp: keeps_def)
  have other: "keeps (print_file io fs p)" "keeps (map_option Inr (print_sym_link io fs p))"
    "keeps (read_file_from_symbol_link io junk fs p)" "keeps (Some (print_permitted fs p))"
    using other_keeps [OF assms(1)] unfolding keeps_def by auto
  have "keeps (selection_command io junk name_command fs p)"
    unfolding selection_command_def using plain [OF plain_keeps(1) [OF assms(1)]] plain [OF plain_keeps(2) [OF assms(1)]]
      plain [OF plain_keeps(3) [OF assms(1)]] plain [OF plain_keeps(4) [OF assms(1)]] plain [OF plain_keeps(5) [OF assms(1)]]
      plain [OF plain_keeps(6) [OF assms(1)]] plain [OF plain_keeps(7) [OF assms(1)]] plain [OF plain_keeps(8) [OF assms(1)]]
      plain [OF plain_keeps(9) [OF assms(1)]] plain [OF plain_keeps(10) [OF assms(1)]] plain [of "(ERROR_HAS_OCCURRED, fs, [])"]
      other assms(1) by simp
  with r show ?thesis unfolding keeps_def by blast
qed

end

interpretation link_counts: fs_invariant fs_wf
  using wf_create wf_add_name wf_drop_name wf_set_mode by unfold_locales auto

lemma free_place_not_dot: "cwd_ok fs \<Longrightarrow> free_place fs p \<Longrightarrow> p \<noteq> dot"
  by (auto simp: cwd_ok_def free_place_def node_at_def)

lemma map_of_filter_key: "q \<noteq> p \<Longrightarrow> map_of (filter (\<lambda>(q, j). q \<noteq> p) l) q = map_of l q"
  by (induction l) auto

lemma lookup_drop_name: "q \<noteq> p \<Longrightarrow> lookup (drop_name fs p i) q = lookup fs q"
  by (simp add: lookup_def drop_name_def map_of_filter_key)

lemma nlink_two_names:
  assumes wf: "fs_wf fs" and "lookup fs p = Some i" and "lookup fs q = Some i" and "p \<noteq> q" and "nodes fs i = Some n"
  shows "nlink n \<noteq> 1"
proof -
  let ?l = "filter (\<lambda>(q, j). q \<noteq> p) (names fs)"
  have "(q, i) \<in> set ?l" using lookup_in [OF assms(3)] assms(4) by auto
  then have "uses ?l i \<noteq> 0" by (auto simp: uses_eq_0)
  moreover have "nlink n = uses (names fs) i" "distinct (map fst (names fs))" using wf assms(5) by (auto simp: fs_wf_def)
  ultimately show ?thesis using uses_drop [of "names fs" p i i] assms(2) by (simp add: lookup_def)
qed

lemma cwd_drop_name:
  assumes wf: "fs_wf fs" and cwd: "cwd_ok fs" and p: "lookup fs p = Some i"
    and "p \<noteq> dot \<or> map_option content (nodes fs i) \<noteq> Some Directory"
  shows "cwd_ok (drop_name fs p i)"
proof -
  from cwd obtain k n where k: "lookup fs dot = Some k" "nodes fs k = Some n" "content n = Directory"
    by (auto simp: cwd_ok_def node_at_def bind_eq_Some_conv)
  with assms(4) p have ne: "p \<noteq> dot" by auto
  show ?thesis
  proof (cases "k = i")
    case True
    with nlink_two_names [OF wf p _ ne] k have "nlink n \<noteq> 1" by simp
    with True k ne show ?thesis by (simp add: cwd_ok_iff lookup_drop_name) (simp add: drop_name_def)
  next
    case False
    with k ne show ?thesis by (simp add: cwd_ok_iff lookup_drop_name) (simp add: drop_name_def)
  qed
qed

lemma cwd_create:
  assumes "fs_wf fs" and "cwd_ok fs" and "free_place fs p"
  shows "cwd_ok (create fs p c m)"
proof -
  from assms(2) obtain k n where k: "lookup fs dot = Some k" "nodes fs k = Some n" "content n = Directory" by (auto simp: cwd_ok_iff)
  with wf_fresh [OF assms(1)] have "k \<noteq> next_ino fs" by auto
  with k free_place_not_dot [OF assms(2,3)] show ?thesis by (simp add: cwd_ok_iff create_def lookup_def)
qed

lemma cwd_add_name:
  assumes "cwd_ok fs" and "free_place fs q"
  shows "cwd_ok (add_name fs q i)"
proof -
  from assms(1) obtain k n where k: "lookup fs dot = Some k" "nodes fs k = Some n" "content n = Directory" by (auto simp: cwd_ok_iff)
  with free_place_not_dot [OF assms] show ?thesis by (cases "k = i") (auto simp: cwd_ok_iff add_name_def lookup_def)
qed

lemma cwd_set_mode:
  assumes "cwd_ok fs"
  shows "cwd_ok (fs\<lparr>nodes := (nodes fs)(i := map_option (\<lambda>n. n\<lparr>mode := m\<rparr>) (nodes fs i))\<rparr>)"
proof -
  from assms obtain k n where "lookup fs dot = Some k" "nodes fs k = Some n" "content n = Directory" by (auto simp: cwd_ok_iff)
  then show ?thesis by (cases "k = i") (auto simp: cwd_ok_iff lookup_def)
qed

interpretation cwd: fs_invariant "\<lambda>fs. fs_wf fs \<and> cwd_ok fs"
  by (rule fs_invariant.intro)
    (simp_all only: wf_create wf_add_name wf_drop_name wf_set_mode cwd_create cwd_add_name cwd_drop_name cwd_set_mode simp_thms)

section \<open>Writing out and links\<close>

lemma write_loop_all:
  assumes "\<And>k. 0 < fwrite_max io k"
  shows "sm \<le> length buffer \<Longrightarrow> \<exists>k'. write_loop io buffer (length buffer) k sm out = Some (OKEY, k', out @ drop sm buffer)"
proof (induction "length buffer - sm" arbitrary: k sm out rule: less_induct)
  case less
  show ?case
  proof (cases "sm < length buffer")
    case False
    with less.prems show ?thesis by (simp add: write_loop.simps)
  next
    case True
    let ?w = "min (fwrite_max io k) (length buffer - sm)"
    have w: "0 < ?w" "sm + ?w \<le> length buffer" using assms [of k] True by auto
    then have "\<exists>k'. write_loop io buffer (length buffer) (Suc k) (sm + ?w) (out @ take ?w (drop sm buffer)) =
        Some (OKEY, k', (out @ take ?w (drop sm buffer)) @ drop (sm + ?w) buffer)"
      by (intro less.hyps) linarith+
    then obtain k' where "write_loop io buffer (length buffer) (Suc k) (sm + ?w) (out @ take ?w (drop sm buffer)) =
        Some (OKEY, k', (out @ take ?w (drop sm buffer)) @ drop (sm + ?w) buffer)" by blast
    moreover have "(out @ take ?w (drop sm buffer)) @ drop (sm + ?w) buffer = out @ drop sm buffer"
      by (metis add.commute append.assoc append_take_drop_id drop_drop)
    ultimately have "write_loop io buffer (length buffer) k sm out = Some (OKEY, k', out @ drop sm buffer)"
      using True by (subst write_loop.simps) (simp only: Let_def if_True)
    then show ?thesis ..
  qed
qed

lemma read_loop_all:
  assumes w: "\<And>k. 0 < fwrite_max io k" and rd: "\<And>k. fread_ok io k" and "file_size \<le> length b"
  shows "bytes_left \<le> file_size \<Longrightarrow>
    read_loop io b file_size bytes_left r k out = Some (OKEY, out @ drop (file_size - bytes_left) (take file_size b))"
proof (induction bytes_left arbitrary: r k out rule: less_induct)
  case (less bytes_left)
  show ?case
  proof (cases "bytes_left = 0")
    case True
    then show ?thesis by (simp add: read_loop.simps)
  next
    case False
    define n where "n = (if bytes_left < CMD_BUFFER_SIZE then bytes_left else CMD_BUFFER_SIZE)"
    let ?b = "take n (drop (file_size - bytes_left) b)"
    have n: "0 < n" "n \<le> bytes_left" using False by (auto simp: n_def CMD_BUFFER_SIZE_def)
    have len: "length ?b = n" using n less.prems assms(3) by simp
    from write_loop_all [OF w, of 0 ?b k "[]"] obtain k' where
      wr: "write_to_file_implements io ?b (length ?b) k = Some (OKEY, k', ?b)"
      by (auto simp: write_to_file_implements_def)
    have "read_loop io b file_size bytes_left r k out = read_loop io b file_size (bytes_left - n) (Suc r) k' (out @ ?b)"
      using False rd wr len by (subst read_loop.simps) (simp add: Let_def flip: n_def)
    also have "\<dots> = Some (OKEY, (out @ ?b) @ drop (file_size - (bytes_left - n)) (take file_size b))"
      using n less.prems by (intro less.IH) auto
    moreover have "?b @ drop (file_size - (bytes_left - n)) (take file_size b) = drop (file_size - bytes_left) (take file_size b)"
    proof -
      have "?b = take n (drop (file_size - bytes_left) (take file_size b))" using n less.prems by (simp add: drop_take min_def)
      moreover have "drop (file_size - (bytes_left - n)) (take file_size b) = drop n (drop (file_size - bytes_left) (take file_size b))"
        using n less.prems by (simp add: add.commute)
      ultimately show ?thesis by (metis append_take_drop_id)
    qed
    ultimately show ?thesis by simp
  qed
qed

text \<open>What \<open>follow\<close> arrives at is not a link.\<close>

lemma follow_no_link: "follow n fs p = Some q \<Longrightarrow> map_option content (node_at fs q) \<noteq> Some (Symlink t)"
proof (induction n arbitrary: p)
  case 0
  then show ?case by (subst (asm) follow.simps) (auto split: option.splits content.splits)
next
  case (Suc n)
  then show ?case by (subst (asm) (2) follow.simps) (auto split: option.splits content.splits)
qed

lemma is_sym_link_error: "is_sym_link fs p = ERROR_HAS_OCCURRED"
  using follow_no_link [of MAXSYMLINKS fs p]
  by (fastforce simp: is_sym_link_def sys_stat_def split: option.splits content.splits Option.bind_splits if_splits)

lemma stat_fopen:
  assumes "sys_stat fs p = Some n" and "content n = Regular b"
  shows "fopen_a fs p = Some (fs, b)" "is_file_reg fs p = OKEY"
  using assms by (auto simp: sys_stat_def fopen_a_def is_file_reg_def split: if_splits option.splits Option.bind_splits)

text \<open>When nothing can be written the loop does not end.\<close>

lemma write_loop_stuck:
  assumes "write_loop io buffer size_written k sum_written out = Some r" and "\<forall>k. fwrite_max io k = 0"
  shows "\<not> sum_written < size_written"
proof -
  have "(\<forall>k. fwrite_max io k = 0) \<longrightarrow> \<not> sum_written < size_written"
  proof (rule write_loop.raw_induct [OF _ assms(1)])
    fix write_loop' :: "io \<Rightarrow> c_char list \<Rightarrow> nat \<Rightarrow> nat \<Rightarrow> nat \<Rightarrow> c_char list \<Rightarrow> (return_status \<times> nat \<times> c_char list) option"
      and io buffer size_written k sum_written out r
    assume IH: "\<And>io buffer size_written k sum_written out r. write_loop' io buffer size_written k sum_written out = Some r \<Longrightarrow>
        (\<forall>k. fwrite_max io k = 0) \<longrightarrow> \<not> sum_written < size_written"
      and r: "(if sum_written < size_written then
          let written = min (fwrite_max io k) (size_written - sum_written)
          in write_loop' io buffer size_written (Suc k) (sum_written + written) (out @ take written (drop sum_written buffer))
        else Some (OKEY, k, out)) = Some r"
    show "(\<forall>k. fwrite_max io k = 0) \<longrightarrow> \<not> sum_written < size_written"
    proof (intro impI notI)
      assume z: "\<forall>k. fwrite_max io k = 0" and l: "sum_written < size_written"
      with r have "write_loop' io buffer size_written (Suc k) sum_written out = Some r" by (simp add: Let_def)
      with IH z l show False by blast
    qed
  qed
  with assms(2) show ?thesis by blast
qed

section \<open>Properties\<close>


definition sample_fsys :: fsys where
  "sample_fsys = \<lparr>names = [(dot, 0), (chars ''f'', 1)],
     nodes = [0 \<mapsto> \<lparr>content = Directory, mode = 0x1FD, nlink = 1\<rparr>, 1 \<mapsto> \<lparr>content = Regular [0x68, 0x69], mode = 0x1A4, nlink = 1\<rparr>],
     next_ino = 2, umask = 0x12, denied = (\<lambda>p. False)\<rparr>"

definition sample_io :: io where
  "sample_io = \<lparr>tell0 = length, fseek_ok = True, fclose_ok = True, closedir_ok = True, fread_ok = (\<lambda>k. True),
     fwrite_max = (\<lambda>k. 1), dir_entries = (\<lambda>p. []), rand_val = 511\<rparr>"




text \<open>
  The three commands for symbolic links always fail and do nothing, also on symbolic links: \<open>is_sym_link\<close> asks
  \<open>stat\<close>, which follows links, so what it sees is never a link.
\<close>

theorem symlink_commands_fail:
  "print_sym_link io fs p = Some (ERROR_HAS_OCCURRED, fs, []) \<and>
   read_file_from_symbol_link io junk fs p = Some (Inr (ERROR_HAS_OCCURRED, fs, [])) \<and>
   remove_sym_link fs p = (ERROR_HAS_OCCURRED, fs, [])"
  by (simp add: print_sym_link_def read_file_from_symbol_link_def remove_sym_link_def is_sym_link_error)

text \<open>
  C18. \<open>print_file\<close> prints the position of the newly opened file and then the bytes up to that position, in blocks of
  256 and with any division of a block over calls of \<open>fwrite\<close>, each of which writes at least one byte. Where a+ starts at the end of the
  file this is the whole file, where it starts at the beginning it is nothing.
\<close>

theorem print_file_prints:
  assumes "sys_stat fs p = Some n" and "content n = Regular b" and "fseek_ok io" and "\<forall>k. fread_ok io k" and "\<forall>k. 0 < fwrite_max io k"
    and "tell0 io b \<le> length b"
  shows "print_file io fs p = Some (Inr (OKEY, fs, [Out_num (tell0 io b), Out_bytes (take (tell0 io b) b)]))"
  using stat_fopen [OF assms(1,2)] assms(3) read_loop_all [OF _ _ assms(6), of io "tell0 io b" 0 0 "[]"] assms(4,5)
  by (simp add: print_file_def print_opened_def write_file_def Let_def)

theorem print_file_prints_witness:
  "print_file sample_io sample_fsys (chars ''f'') = Some (Inr (OKEY, sample_fsys, [Out_num 2, Out_bytes [0x68, 0x69]]))"
proof -
  have "sys_stat sample_fsys (chars ''f'') = Some \<lparr>content = Regular [0x68, 0x69], mode = 0x1A4, nlink = 1\<rparr>"
    by (simp add: sys_stat_def sample_fsys_def node_at_def lookup_def chars_def follow.simps MAXSYMLINKS_def)
  from print_file_prints [OF this, of _ sample_io] show ?thesis by (simp add: sample_io_def)
qed

text \<open>
  C37. When the output takes nothing (a full disk), \<open>print_file\<close> of a file that is not empty never returns:
  \<open>fwrite\<close> returns zero, which the test for \<open>-1\<close> does not see, and the loop repeats the call for ever.
\<close>

theorem print_file_hangs:
  assumes "sys_stat fs p = Some n" and "content n = Regular b" and "fseek_ok io" and "\<forall>k. fread_ok io k" and "\<forall>k. fwrite_max io k = 0"
    and "0 < tell0 io b" and "tell0 io b \<le> length b"
  shows "print_file io fs p = None"
proof -
  have stuck: "write_to_file_implements io buf k j = None" if "0 < k" for buf k j
    using write_loop_stuck [of io buf k j 0 "[]", OF _ assms(5)] that
    by (cases "write_loop io buf k j 0 []") (auto simp: write_to_file_implements_def)
  define t where "t = (if tell0 io b < CMD_BUFFER_SIZE then tell0 io b else CMD_BUFFER_SIZE)"
  have t: "0 < t" "t \<le> length b" using assms(6,7) by (auto simp: t_def CMD_BUFFER_SIZE_def)
  have "read_loop io b (tell0 io b) (tell0 io b) 0 0 [] = None"
    using assms(4,6) t stuck [of t] by (subst read_loop.simps) (simp add: Let_def min_def flip: t_def)
  with stat_fopen [OF assms(1,2)] assms(3) show ?thesis
    by (simp add: print_file_def print_opened_def write_file_def Let_def)
qed

theorem print_file_hangs_witness: "print_file (sample_io\<lparr>fwrite_max := \<lambda>k. 0\<rparr>) sample_fsys (chars ''f'') = None"
proof -
  have "sys_stat sample_fsys (chars ''f'') = Some \<lparr>content = Regular [0x68, 0x69], mode = 0x1A4, nlink = 1\<rparr>"
    by (simp add: sys_stat_def sample_fsys_def node_at_def lookup_def chars_def follow.simps MAXSYMLINKS_def)
  from print_file_hangs [OF this] show ?thesis by (simp add: sample_io_def)
qed

text \<open>The usual rendering of the nine permission bits.\<close>

definition perm_string :: "mode_t \<Rightarrow> c_char list" where
  "perm_string m = concat (map (\<lambda>k. [if bit m (k + 2) then 0x72 else 0x2D, if bit m (k + 1) then 0x77 else 0x2D,
     if bit m k then 0x78 else 0x2D]) [6, 3, 0])"

lemma get_permissions_list:
  "get_permissions n = [flag (mode n) 0x100 0x72, flag (mode n) 0x80 0x77, flag (mode n) 0x40 0x78,
     flag (mode n) 0x20 0x72, flag (mode n) 0x10 0x77, flag (mode n) 0x40 0x78,
     flag (mode n) 0x4 0x72, flag (mode n) 0x2 0x77, flag (mode n) 0x1 0x78, if mode n AND 0x200 \<noteq> 0 then 0x74 else 0x20]"
  by (simp add: get_permissions_def Let_def eval_nat_numeral)

text \<open>
  C38. The nine letters of \<open>get_permissions\<close> are those of the usual rendering exactly for the files whose owner and whose group have
  the same execute permission: the letter for the group is computed from the bit of the owner. And the string
  has no end: \<open>print_permitted\<close> of any existing file reads past the block.
\<close>

theorem get_permissions_reference:
  "(take 9 (get_permissions n) = perm_string (mode n) \<longleftrightarrow> bit (mode n) 6 = bit (mode n) 3) \<and>
   (case sys_stat fs p of None \<Rightarrow> print_permitted fs p = Inr (ERROR_HAS_OCCURRED, fs, [])
    | Some n' \<Rightarrow> print_permitted fs p = Inl OutOfBounds)"
proof -
  have flag: "mode n AND 2 ^ k \<noteq> 0 \<longleftrightarrow> bit (mode n) k" for k by (simp add: and_exp_eq_0_iff_not_bit)
  note flags = flag [of 0, simplified] flag [of 1, simplified] flag [of 2, simplified] flag [of 3, simplified] flag [of 4, simplified]
    flag [of 5, simplified] flag [of 6, simplified] flag [of 7, simplified] flag [of 8, simplified]
  have two: "bit (mode n) (Suc (Suc 0)) = bit (mode n) 2" by (simp add: numeral_2_eq_2)
  have "take 9 (get_permissions n) = perm_string (mode n) \<longleftrightarrow> bit (mode n) 6 = bit (mode n) 3"
    by (simp add: get_permissions_list perm_string_def flags two)
  moreover have "0 \<notin> set (get_permissions m)" for m by (simp add: get_permissions_list)
  ultimately show ?thesis by (simp add: print_permitted_def str_len_def split: option.splits)
qed

text \<open>
  The first line of the status file of a process, for a program of the given name: the kernel keeps 15 characters of the name.
\<close>

definition status_line :: "string \<Rightarrow> string" where
  "status_line prog = ''Name:'' @ [CHR 0x09] @ take 15 prog @ [CHR 0x0A]"

definition exec_as :: "io \<Rightarrow> (nat \<Rightarrow> c_char) \<Rightarrow> fsys \<Rightarrow> path \<Rightarrow> string \<Rightarrow> (fault + return_status \<times> fsys \<times> out list) option" where
  "exec_as io junk fs p prog = selection_command io junk (get_name_command (status_line prog)) fs p"

text \<open>
  The choice of the command. Under each of twelve names the program runs the command of that name on its argument; under the names
  change_permitted and read_file_from_symbol_link, which the kernel cuts to 15 characters, it finds no command and fails.
\<close>

theorem command_names_dispatch:
  "exec_as io junk fs p ''mkdir'' = Some (Inr (make_dir fs p)) \<and> exec_as io junk fs p ''print_dir'' = Some (Inr (print_dir io fs p)) \<and>
    exec_as io junk fs p ''rmdir'' = Some (Inr (remove_dir fs p)) \<and> exec_as io junk fs p ''touch_file'' = Some (Inr (touch_file io fs p)) \<and>
    exec_as io junk fs p ''print_file'' = print_file io fs p \<and> exec_as io junk fs p ''remove_file'' = Some (Inr (remove_file fs p)) \<and>
    exec_as io junk fs p ''ln_symbol_link'' = Some (Inr (ln_symbol_link fs p)) \<and> exec_as io junk fs p ''print_sym_link'' = map_option Inr (print_sym_link io fs p) \<and>
    exec_as io junk fs p ''remove_sym_link'' = Some (Inr (remove_sym_link fs p)) \<and> exec_as io junk fs p ''ln_hard_link'' = Some (Inr (ln_hard_link fs p)) \<and>
    exec_as io junk fs p ''hard_unlink'' = Some (Inr (hard_unlink fs p)) \<and> exec_as io junk fs p ''print_permitted'' = Some (print_permitted fs p) \<and>
    exec_as io junk fs p ''change_permitted'' = Some (Inr (ERROR_HAS_OCCURRED, fs, [])) \<and>
    exec_as io junk fs p ''read_file_from_symbol_link'' = Some (Inr (ERROR_HAS_OCCURRED, fs, []))"
  by (intro conjI) (simp_all add: exec_as_def selection_command_def command_is_def get_name_command_def status_line_def)

section \<open>Undoing commands\<close>










end
