(* ===== verification/Sockets.thy ===== *)
theory Sockets
  imports Prelude
begin

text \<open>
  The echo programs of \<open>semestr1/Task6/Task6_1\<close>: a server and a client over Unix domain sockets (\<open>server.c\<close>, \<open>client.c\<close>) and over UDP
  (\<open>udp_server.c\<close>, \<open>udp_client.c\<close>). What the sockets and the terminal deliver is a parameter; a buffer is the list of its
  bytes, so that printing it as a string is a fault when it has no null byte.
\<close>

section \<open>Buffers\<close>

definition SIZE_BUFFER_SERVER :: nat where "SIZE_BUFFER_SERVER = 5"
definition SIZE_BUFFER_CLIENT :: nat where "SIZE_BUFFER_CLIENT = 128"
definition UDP_BUFFER_SIZE :: nat where "UDP_BUFFER_SIZE = 1024"

text \<open>\<open>printf\<close> with the format s; bytes received into the front of a buffer.\<close>

definition print_str :: "c_char list \<Rightarrow> fault + c_char list" where
  "print_str buf = (if 0 \<in> set buf then Inr (c_str buf) else Inl OutOfBounds)"

definition recv_into :: "c_char list \<Rightarrow> c_char list \<Rightarrow> c_char list" where
  "recv_into buf bs = bs @ drop (length bs) buf"

text \<open>A result of \<open>read\<close> or \<open>recvfrom\<close>: \<open>-1\<close>, or the bytes received, none of them at the end of a stream.\<close>

datatype received = Rd_error | Rd "c_char list"

text \<open>How a loop stands: it has been left, or waits for the next message.\<close>

datatype loop_end = Stopped | Waiting

section \<open>server.c\<close>

text \<open>
  \<open>communicate_client\<close>: \<open>junk k\<close> is what the buffer, a variable of the loop body, holds at the start of round \<open>k\<close>. The result of \<open>read\<close> is
  looked at only after the buffer is printed, and the end of the stream is not looked for.
\<close>

fun communicate_client :: "(nat \<Rightarrow> c_char list) \<Rightarrow> (nat \<Rightarrow> bool) \<Rightarrow> nat \<Rightarrow> received list \<Rightarrow> c_char list \<Rightarrow>
    fault + loop_end \<times> c_char list" where
  "communicate_client junk write_ok k [] sent = Inr (Waiting, sent)"
| "communicate_client junk write_ok k (Rd_error # rs) sent = fbind (print_str (junk k)) (\<lambda>p. Inr (Stopped, sent))"
| "communicate_client junk write_ok k (Rd bs # rs) sent = fbind (print_str (recv_into (junk k) bs)) (\<lambda>p.
     if \<not> write_ok k then Inr (Stopped, sent)
     else communicate_client junk write_ok (Suc k) rs (sent @ bs))"

text \<open>\<open>bind\<close>: fails when the address is taken or when the socket has an address already.\<close>

definition sys_bind :: "bool \<Rightarrow> bool \<Rightarrow> bool" where
  "sys_bind already_bound free_addr \<longleftrightarrow> \<not> already_bound \<and> free_addr"

datatype fork_result = Fork_error | Fork_child | Fork_parent

datatype server_end = Exit_failure | Serving | Accepting

text \<open>The accept loop: the results of \<open>accept\<close> and \<open>fork\<close>; a child leaves it to serve its client.\<close>

fun server_accept :: "(bool \<times> fork_result) list \<Rightarrow> server_end" where
  "server_accept [] = Accepting"
| "server_accept ((accept_ok, f) # as) = (if \<not> accept_ok then Exit_failure
     else (case f of Fork_error \<Rightarrow> Exit_failure | Fork_child \<Rightarrow> Serving | Fork_parent \<Rightarrow> server_accept as))"

definition server_main :: "bool \<Rightarrow> bool \<Rightarrow> bool \<Rightarrow> (bool \<times> fork_result) list \<Rightarrow> server_end" where
  "server_main socket_ok free_addr listen_ok accepts =
     (if \<not> socket_ok then Exit_failure
      else if \<not> sys_bind False free_addr then Exit_failure
      else if \<not> sys_bind True free_addr then Exit_failure
      else if \<not> listen_ok then Exit_failure
      else server_accept accepts)"

text \<open>
  The children of the server: those that run, those that have ended and are not yet waited for, and whether \<open>SIGCHLD\<close> is pending; a signal that is pending
  already is not counted again.
\<close>

record children =
  running :: nat
  zombies :: nat
  pending :: bool

definition child_exits :: "children \<Rightarrow> children option" where
  "child_exits s = (if running s = 0 then None else Some (s\<lparr>running := running s - 1, zombies := zombies s + 1, pending := True\<rparr>))"

text \<open>\<open>sigchld_handler\<close> waits for one child.\<close>

definition sigchld_handler :: "children \<Rightarrow> children option" where
  "sigchld_handler s = (if \<not> pending s then None
     else if 0 < zombies s then Some (s\<lparr>pending := False, zombies := zombies s - 1\<rparr>)
     else if 0 < running s then None else Some (s\<lparr>pending := False\<rparr>))"

fun exits :: "nat \<Rightarrow> children \<Rightarrow> children option" where
  "exits 0 s = Some s"
| "exits (Suc k) s = (case child_exits s of None \<Rightarrow> None | Some s' \<Rightarrow> exits k s')"

section \<open>client.c\<close>

text \<open>
  A round of \<open>communicate_server\<close>: the line \<open>fgets\<close> reads (at most 127 bytes; at the end of the input the buffer stays empty), the result of \<open>write\<close> and
  what \<open>read\<close> delivers. The buffer is not cleared in between. The loop over the rounds gives the messages sent and the responses printed.
\<close>

fun communicate_server :: "(c_char list \<times> bool \<times> received) list \<Rightarrow> c_char list list \<Rightarrow> c_char list list \<Rightarrow>
    fault + loop_end \<times> c_char list list \<times> c_char list list" where
  "communicate_server [] sent printed = Inr (Waiting, sent, printed)"
| "communicate_server ((line, write_ok, r) # rs) sent printed =
     (let input = recv_into (replicate SIZE_BUFFER_CLIENT 0) (take (SIZE_BUFFER_CLIENT - 1) line) in
      if \<not> write_ok then Inr (Stopped, sent, printed)
      else (case r of Rd_error \<Rightarrow> Inr (Stopped, sent @ [c_str input], printed)
        | Rd bs \<Rightarrow> fbind (print_str (recv_into input bs)) (\<lambda>p.
            communicate_server rs (sent @ [c_str input]) (printed @ [p]))))"

definition client_main :: "bool \<Rightarrow> bool \<Rightarrow> (c_char list \<times> bool \<times> received) list \<Rightarrow>
    fault + nat \<times> c_char list list \<times> c_char list list" where
  "client_main socket_ok connect_ok rounds = (if \<not> socket_ok \<or> \<not> connect_ok then Inr (1, [], [])
     else fbind (communicate_server rounds [] []) (\<lambda>(e, sent, printed). Inr (0, sent, printed)))"

section \<open>udp_server.c\<close>

text \<open>
  A round of the server: the datagram that arrives, cut to the size of the buffer, and the datagram sent back. \<open>Inr None\<close> is the exit after an
  error.
\<close>

definition udp_server_round :: "received \<Rightarrow> bool \<Rightarrow> fault + c_char list option" where
  "udp_server_round r sendto_ok = (case r of Rd_error \<Rightarrow> Inr None
     | Rd d \<Rightarrow> (let bs = take UDP_BUFFER_SIZE d; buffer = recv_into (replicate UDP_BUFFER_SIZE 0) bs in
        fbind (print_str buffer) (\<lambda>p. if \<not> sendto_ok then Inr None else Inr (Some (take (length bs) buffer)))))"

fun udp_server_loop :: "(received \<times> bool) list \<Rightarrow> c_char list list \<Rightarrow> fault + loop_end \<times> c_char list list" where
  "udp_server_loop [] sent = Inr (Waiting, sent)"
| "udp_server_loop ((r, ok) # rs) sent = fbind (udp_server_round r ok) (\<lambda>x. case x of
     None \<Rightarrow> Inr (Stopped, sent) | Some d \<Rightarrow> udp_server_loop rs (sent @ [d]))"

definition udp_server_main :: "bool \<Rightarrow> bool \<Rightarrow> (received \<times> bool) list \<Rightarrow> fault + loop_end \<times> c_char list list" where
  "udp_server_main socket_ok bind_ok rounds = (if \<not> socket_ok \<or> \<not> bind_ok then Inr (Stopped, []) else udp_server_loop rounds [])"

section \<open>udp_client.c\<close>




section \<open>Facts\<close>

definition text_line :: "nat \<Rightarrow> c_char list \<Rightarrow> bool" where
  "text_line n l \<longleftrightarrow> 0 \<notin> set l \<and> length l < n"

lemma recv_zeros:
  "text_line n l \<Longrightarrow> \<exists>t. recv_into (replicate n 0) l = l @ 0 # t"
  by (auto simp: text_line_def recv_into_def Suc_diff_Suc [symmetric] replicate_Suc)

lemma print_recv: "text_line n l \<Longrightarrow> print_str (recv_into (replicate n 0) l) = Inr l"
  using recv_zeros [of n l] by (auto simp: print_str_def text_line_def)



section \<open>Properties\<close>



lemma communicate_short:
  assumes "\<forall>bs \<in> set blocks. text_line SIZE_BUFFER_SERVER bs" and "\<forall>k. junk k = replicate SIZE_BUFFER_SERVER 0" and "\<forall>k. write_ok k"
  shows "communicate_client junk write_ok k (map Rd blocks) sent = Inr (Waiting, sent @ concat blocks)"
  using assms(1)
proof (induction blocks arbitrary: k sent)
  case (Cons b blocks)
  with print_recv [of SIZE_BUFFER_SERVER b] assms(2,3) show ?case by simp
qed simp

text \<open>
  The server over Unix domain sockets. It never gets as far as listening: it binds its socket twice, and the second \<open>bind\<close> fails. The loop
  for a client returns exactly the bytes it receives as long as every block has fewer than five of them and the
  rest of the buffer is zero; a full block of five bytes of text is printed without an end, a read past the buffer.
\<close>

theorem unix_server_behaviour:
  assumes "\<forall>bs \<in> set blocks. text_line SIZE_BUFFER_SERVER bs" and "\<forall>k. junk k = replicate SIZE_BUFFER_SERVER 0" and "\<forall>k. write_ok k"
    and "0 \<notin> set full" and "length full = SIZE_BUFFER_SERVER"
  shows "server_main socket_ok free_addr listen_ok accepts = Exit_failure \<and>
    communicate_client junk write_ok 0 (map Rd blocks) [] = Inr (Waiting, concat blocks) \<and>
    communicate_client junk write_ok 0 (Rd full # rs) [] = Inl OutOfBounds"
proof (intro conjI)
  show "server_main socket_ok free_addr listen_ok accepts = Exit_failure" by (simp add: server_main_def sys_bind_def)
  show "communicate_client junk write_ok 0 (map Rd blocks) [] = Inr (Waiting, concat blocks)"
    using communicate_short [OF assms(1-3), of 0 "[]"] by simp
  have "recv_into (junk 0) full = full" using assms(2,5) by (simp add: recv_into_def)
  then show "communicate_client junk write_ok 0 (Rd full # rs) [] = Inl OutOfBounds" using assms(4) by (simp add: print_str_def)
qed

theorem unix_server_behaviour_witness:
  "server_main True True True [(True, Fork_child)] = Exit_failure \<and>
   communicate_client (\<lambda>k. [0, 0, 0, 0, 0]) (\<lambda>k. True) 0 (map Rd [[0x68, 0x69], []]) [] = Inr (Waiting, concat [[0x68, 0x69], []]) \<and>
   communicate_client (\<lambda>k. [0, 0, 0, 0, 0]) (\<lambda>k. True) 0 (Rd [0x68, 0x65, 0x6C, 0x6C, 0x6F] # []) [] = Inl OutOfBounds"
  by (rule unix_server_behaviour) (simp_all add: text_line_def SIZE_BUFFER_SERVER_def replicate_num)

text \<open>After the end of the stream the server's loop never stops.\<close>

lemma communicate_client_eof:
  assumes "\<forall>k. junk k = replicate SIZE_BUFFER_SERVER 0" and "\<forall>k. write_ok k"
  shows "communicate_client junk write_ok k (map Rd (replicate n [])) sent = Inr (Waiting, sent)"
  using communicate_short [of "replicate n []" junk write_ok k sent] assms by (simp add: text_line_def SIZE_BUFFER_SERVER_def)

text \<open>
  The client over Unix domain sockets, with a server that answers every line with the same line: it prints the lines it
  sent.
\<close>

lemma communicate_server_echo:
  assumes "\<forall>l \<in> set ls. text_line SIZE_BUFFER_CLIENT l"
  shows "communicate_server (map (\<lambda>l. (l, True, Rd l)) ls) sent printed = Inr (Waiting, sent @ ls, printed @ ls)"
  using assms
proof (induction ls arbitrary: sent printed)
  case (Cons l ls)
  let ?i = "recv_into (replicate SIZE_BUFFER_CLIENT 0) l"
  from Cons.prems obtain t where t: "?i = l @ 0 # t" "0 \<notin> set l" "length l < SIZE_BUFFER_CLIENT" using recv_zeros by (fastforce simp: text_line_def)
  then have "take (SIZE_BUFFER_CLIENT - 1) l = l" "c_str ?i = l" "recv_into ?i l = ?i" by (simp_all add: recv_into_def)
  moreover have "print_str ?i = Inr l" using print_recv Cons.prems by simp
  ultimately show ?case using Cons by (simp add: Let_def)
qed simp

lemma exits_many: "k \<le> running s \<Longrightarrow> 0 < k \<Longrightarrow> exits k s = Some (s\<lparr>running := running s - k, zombies := zombies s + k, pending := True\<rparr>)"
proof (induction k arbitrary: s)
  case (Suc k)
  then show ?case by (cases "k = 0") (simp_all add: child_exits_def)
qed simp

text \<open>
  Children that end together are not all waited for: when \<open>k\<close> of them end before the handler runs, it runs once, and \<open>k - 1\<close> of them stay behind without a
  signal that would bring the handler back.
\<close>

theorem sigchld_leaves_zombies:
  assumes "0 < k" and "k \<le> running s" and "zombies s = 0"
  shows "\<exists>s' s''. exits k s = Some s' \<and> sigchld_handler s' = Some s'' \<and> zombies s'' = k - 1 \<and> sigchld_handler s'' = None"
  using exits_many [OF assms(2,1)] assms by (simp add: sigchld_handler_def)

theorem sigchld_leaves_zombies_witness:
  "\<exists>s' s''. exits 3 \<lparr>running = 3, zombies = 0, pending = False\<rparr> = Some s' \<and> sigchld_handler s' = Some s'' \<and> zombies s'' = 2 \<and> sigchld_handler s'' = None"
  using sigchld_leaves_zombies [of 3 "\<lparr>running = 3, zombies = 0, pending = False\<rparr>"] by simp

end
