(* ===== verification/Processes.thy ===== *)
theory Processes
  imports Prelude
begin

unbundle bit_operations_syntax

text \<open>
  The programs of the first semester on processes and memory: \<open>Task4/Task4_1/environment.c\<close>, \<open>Task4/Task4_1/allocate_memory_heap.c\<close>,
  \<open>Task4/Task4_2/heap_corupttion.c\<close> and \<open>Task5/Task5_1/main.c\<close>. Results of system calls and of the allocator are parameters; printed
  addresses are left out.
\<close>

section \<open>environment.c\<close>

datatype env_status = Env_error | Env_ok

type_synonym environ = "string \<rightharpoonup> string"

text \<open>\<open>setenv\<close> refuses a name that is empty or has an equals sign.\<close>

definition setenv :: "environ \<Rightarrow> string \<Rightarrow> string \<Rightarrow> environ option" where
  "setenv e name val = (if name = [] \<or> CHR ''='' \<in> set name then None else Some (e(name \<mapsto> val)))"

text \<open>\<open>set_environment\<close> passes the value of the variable, not its name, to \<open>setenv\<close>.\<close>

definition set_environment :: "environ \<Rightarrow> string \<Rightarrow> string \<Rightarrow> env_status \<times> environ" where
  "set_environment e name_env new_value_env = (case e name_env of None \<Rightarrow> (Env_error, e)
     | Some env \<Rightarrow> (case setenv e env new_value_env of None \<Rightarrow> (Env_error, e) | Some e' \<Rightarrow> (Env_ok, e')))"

definition print_environment :: "environ \<Rightarrow> string \<Rightarrow> env_status \<times> string list" where
  "print_environment e name_env = (case e name_env of None \<Rightarrow> (Env_error, []) | Some env \<Rightarrow> (Env_ok, [env]))"

text \<open>\<open>run_task\<close>: the status, \<open>None\<close> when the end of the function is reached without a \<open>return\<close>; the environment; the output.\<close>

definition run_task_env :: "environ \<Rightarrow> string \<Rightarrow> env_status option \<times> environ \<times> string list" where
  "run_task_env e name_env = (case print_environment e name_env of (r1, o1) \<Rightarrow>
     if r1 = Env_error then (Some Env_error, e, o1)
     else (case set_environment e name_env ''TEST'' of (r2, e') \<Rightarrow>
       if r2 = Env_error then (Some Env_error, e', o1)
       else (case print_environment e' name_env of (r3, o3) \<Rightarrow>
         if r3 = Env_error then (Some Env_error, e', o1 @ o3) else (None, e', o1 @ o3))))"

definition environment_main :: "nat \<Rightarrow> environ \<Rightarrow> string \<Rightarrow> fault + nat \<times> environ \<times> string list" where
  "environment_main argc e arg = (if argc \<noteq> 2 then Inr (1, e, [])
     else (case run_task_env e arg of (None, e', outs) \<Rightarrow> Inl Uninitialised
       | (Some r, e', outs) \<Rightarrow> Inr (if r = Env_ok then 0 else 1, e', outs)))"

section \<open>allocate_memory_heap.c\<close>

type_synonym blocks = "c_char list heap"

definition hello_world :: "c_char list" where
  "hello_world = [0x68, 0x65, 0x6C, 0x6C, 0x6F, 0x20, 0x77, 0x6F, 0x72, 0x6C, 0x64]"

definition print_block :: "blocks \<Rightarrow> addr \<Rightarrow> fault + c_char list" where
  "print_block h a = fbind (load h (Some a)) (\<lambda>b. if 0 \<in> set b then Inr (c_str b) else Inl OutOfBounds)"

definition strcpy_block :: "blocks \<Rightarrow> addr \<Rightarrow> c_char list \<Rightarrow> fault + blocks" where
  "strcpy_block h a s = fbind (load h (Some a)) (\<lambda>b.
     if length s < length b then Inr (h(a \<mapsto> s @ 0 # drop (Suc (length s)) b)) else Inl OutOfBounds)"

text \<open>
  \<open>allocate_memory_heap\<close> with the results of its two calls of \<open>calloc\<close>. The pointer passed to the second \<open>free\<close> is the start of the block only
  if \<open>size / 2\<close> is zero.
\<close>

definition allocate_memory_heap :: "addr option \<Rightarrow> addr option \<Rightarrow> nat \<Rightarrow> blocks \<Rightarrow> fault + env_status \<times> blocks \<times> c_char list list" where
  "allocate_memory_heap calloc1 calloc2 sz h = (case calloc1 of None \<Rightarrow> Inr (Env_error, h, [])
     | Some b1 \<Rightarrow>
       fbind (strcpy_block (h(b1 \<mapsto> replicate sz 0)) b1 hello_world) (\<lambda>h1.
       fbind (print_block h1 b1) (\<lambda>p1.
       fbind (free_cell h1 (Some b1)) (\<lambda>h2.
       fbind (print_block h2 b1) (\<lambda>p2.
       case calloc2 of None \<Rightarrow> Inr (Env_error, h2, [p1, p2])
       | Some b2 \<Rightarrow>
         fbind (strcpy_block (h2(b2 \<mapsto> replicate sz 0)) b2 hello_world) (\<lambda>h3.
         fbind (print_block h3 b2) (\<lambda>p3.
         if sz div 2 \<noteq> 0 then Inl BadFree
         else fbind (free_cell h3 (Some b2)) (\<lambda>h4. fbind (print_block h4 b2) (\<lambda>p4. Inr (Env_ok, h4, [p1, p2, p3, p4]))))))))))"

definition allocate_main :: "addr option \<Rightarrow> addr option \<Rightarrow> blocks \<Rightarrow> fault + nat" where
  "allocate_main calloc1 calloc2 h = fbind (allocate_memory_heap calloc1 calloc2 100 h) (\<lambda>(st, h', outs). Inr (if st = Env_ok then 0 else 1))"

section \<open>heap_corupttion.c\<close>

definition SIZE_BLOCK :: nat where "SIZE_BLOCK = 4096"
definition SIZE_POINTER :: nat where "SIZE_POINTER = 8"

text \<open>The state of \<open>heap_corruption\<close>: the global \<open>i\<close>, the variable \<open>size_allocation\<close>, the bytes the array of pointers has, the blocks stored in it, the
  pages mapped in the rounds so far.\<close>

record hc_state =
  hc_i :: nat
  size_allocation :: nat
  array_bytes :: nat
  stored :: "addr list"
  mapped_pages :: nat

datatype hc_end = Continue hc_state | Exit_1

text \<open>\<open>free_array_allocation\<close>: reads \<open>size\<close> pointers of the array.\<close>

definition free_array_allocation :: "hc_state \<Rightarrow> nat \<Rightarrow> fault + unit" where
  "free_array_allocation s sz = (if sz * SIZE_POINTER \<le> array_bytes s then Inr () else Inl OutOfBounds)"

text \<open>
  \<open>signal_callback_handler\<close> takes three parameters, but a signal passes one: the array and the size are whatever the registers hold (\<open>None\<close>: no value was written).
\<close>

definition signal_callback_handler :: "nat \<Rightarrow> (hc_state \<times> nat) option \<Rightarrow> fault + nat" where
  "signal_callback_handler sig_num args = (case args of None \<Rightarrow> Inl Uninitialised
     | Some (array, sz) \<Rightarrow> fbind (free_array_allocation array sz) (\<lambda>u. Inr sig_num))"

definition on_signal :: "nat \<Rightarrow> fault + nat" where
  "on_signal sig_num = signal_callback_handler sig_num None"

text \<open>The end of a round: ten pages are mapped, two in the middle unmapped, the first protected; nothing is unmapped later.\<close>

definition map_pages :: "bool \<Rightarrow> hc_state \<Rightarrow> hc_state" where
  "map_pages mmap_ok s = (if mmap_ok then s\<lparr>mapped_pages := mapped_pages s + 10 - 2\<rparr> else s)"

text \<open>
  One round of the loop, with the results of \<open>malloc\<close>, \<open>realloc\<close> and \<open>mmap\<close>. The new size of the array is passed to \<open>realloc\<close> in elements, which it takes as
  bytes.
\<close>

definition hc_round :: "addr option \<Rightarrow> bool \<Rightarrow> bool \<Rightarrow> hc_state \<Rightarrow> fault + hc_end" where
  "hc_round malloc realloc_ok mmap_ok s = (case malloc of
     None \<Rightarrow> fbind (free_array_allocation s (size_allocation s)) (\<lambda>u. Inr Exit_1)
   | Some a \<Rightarrow>
      if array_bytes s < (hc_i s + 1) * SIZE_POINTER then Inl OutOfBounds
      else (let s1 = s\<lparr>hc_i := hc_i s + 1, stored := stored s @ [a]\<rparr> in
        if size_allocation s1 \<le> hc_i s1 then
          (let s2 = s1\<lparr>size_allocation := size_allocation s1 + SIZE_BLOCK\<rparr> in
           if \<not> realloc_ok then fbind (free_array_allocation s2 (size_allocation s2)) (\<lambda>u. Inr Exit_1)
           else Inr (Continue (map_pages mmap_ok (s2\<lparr>array_bytes := size_allocation s2\<rparr>))))
        else Inr (Continue (map_pages mmap_ok s1))))"

fun hc_loop :: "(addr option \<times> bool \<times> bool) list \<Rightarrow> hc_state \<Rightarrow> fault + hc_end" where
  "hc_loop [] s = Inr (Continue s)"
| "hc_loop ((m, r, p) # rs) s = fbind (hc_round m r p s) (\<lambda>e. case e of Continue s' \<Rightarrow> hc_loop rs s' | Exit_1 \<Rightarrow> Inr Exit_1)"

definition heap_corruption :: "bool \<Rightarrow> (addr option \<times> bool \<times> bool) list \<Rightarrow> fault + hc_end" where
  "heap_corruption calloc_ok rounds = (if \<not> calloc_ok then Inr Exit_1
     else hc_loop rounds \<lparr>hc_i = 0, size_allocation = SIZE_BLOCK, array_bytes = SIZE_BLOCK * SIZE_POINTER, stored = [], mapped_pages = 0\<rparr>)"

section \<open>stack_corupttion.c\<close>

definition STACK_BUFFER :: nat where "STACK_BUFFER = 4096"

text \<open>
  \<open>stack_corruption\<close> with \<open>left\<close> bytes of stack, frames of \<open>STACK_BUFFER + extra\<close> bytes and the global \<open>i\<close>: the numbers printed before the stack is used up, which ends the
  program with \<open>SIGSEGV\<close>.
\<close>

function stack_corruption :: "nat \<Rightarrow> nat \<Rightarrow> nat \<Rightarrow> nat list \<times> fault" where
  "stack_corruption extra left i = (if left < STACK_BUFFER + extra then ([], BadAccess)
     else (case stack_corruption extra (left - (STACK_BUFFER + extra)) (i + 1) of (printed, f) \<Rightarrow> ((i + 1) # printed, f)))"
  by pat_completeness auto

termination
  by (relation "measure (\<lambda>(extra, left, i). left)") (auto simp: STACK_BUFFER_def)

declare stack_corruption.simps [simp del]

section \<open>hello_from_dyn_runtime_lib.c\<close>

text \<open>\<open>dlerror\<close> delivers the message of the last error once.\<close>

definition dlerror :: "string option \<Rightarrow> string option \<times> string option" where
  "dlerror e = (e, None)"

definition print_message :: "string \<Rightarrow> string option \<Rightarrow> fault + string" where
  "print_message prefix m = (case m of None \<Rightarrow> Inl NullDeref | Some t \<Rightarrow> Inr (prefix @ t))"

text \<open>
  \<open>load_lib_run_function\<close> with the results of \<open>dlopen\<close> and \<open>dlsym\<close>, the error message or what calling the function prints: the output and whether the library is
  closed again.
\<close>

definition load_lib_run_function :: "string + unit \<Rightarrow> string + string \<Rightarrow> fault + string list \<times> bool" where
  "load_lib_run_function dlopen dlsym = (case dlopen of
     Inl e \<Rightarrow> fbind (print_message ''dlopen() failed: '' (fst (dlerror (Some e)))) (\<lambda>m. Inr ([m], False))
   | Inr h \<Rightarrow> (case dlerror (case dlsym of Inl e \<Rightarrow> Some e | Inr t \<Rightarrow> None) of (error, err') \<Rightarrow>
       if error \<noteq> None then fbind (print_message ''dlsyn() failed: '' (fst (dlerror err'))) (\<lambda>m. Inr ([m], True))
       else (case dlsym of Inl e \<Rightarrow> Inl NullDeref | Inr t \<Rightarrow> Inr ([t], True))))"

definition dyn_main :: "string + unit \<Rightarrow> string + string \<Rightarrow> fault + string list" where
  "dyn_main dlopen dlsym = fbind (load_lib_run_function dlopen dlsym) (\<lambda>(outs, closed). Inr (''print_hello'' # ''hello_from_dyn_runtime_lib'' # outs))"

section \<open>Task5\<close>

text \<open>The two variables of the program; a line of output gives their values, or the report on the child.\<close>

record fork_vars =
  global_value :: c_int
  local_value :: c_int

datatype fork_out = Values c_int c_int | Pid c_int | Parent_pid c_int | Ended c_int c_int

text \<open>The child, with its copy of the variables; its exit code is 5.\<close>

definition child_part :: "c_int \<Rightarrow> c_int \<Rightarrow> fork_vars \<Rightarrow> fork_vars \<times> fork_out list \<times> nat" where
  "child_part pid ppid v = (let v' = v\<lparr>local_value := 30, global_value := 40\<rparr> in
     (v', [Pid pid, Parent_pid ppid, Values (global_value v) (local_value v), Values (global_value v') (local_value v')], 5))"

text \<open>
  The parent: \<open>child_status\<close> is the result of \<open>waitpid\<close>, the process number of the child or \<open>-1\<close>. The macros for the exit status are applied to it, and not to the
  status word.
\<close>

definition WIFEXITED :: "c_int \<Rightarrow> bool" where "WIFEXITED w \<longleftrightarrow> w AND 0x7F = 0"
definition WEXITSTATUS :: "c_int \<Rightarrow> c_int" where "WEXITSTATUS w = drop_bit 8 (w AND 0xFF00)"

definition parent_part :: "c_int \<Rightarrow> fork_vars \<Rightarrow> fork_vars \<times> fork_out list \<times> nat" where
  "parent_part child_status v =
     (let o1 = [Values (global_value v) (local_value v)] in
      if child_status = -1 then (v, o1, 1)
      else (v, o1 @ (if WIFEXITED child_status then [Ended child_status (WEXITSTATUS child_status)] else []) @
        [Values (global_value v) (local_value v)], 0))"

text \<open>
  \<open>run_task\<close>: the outputs of parent and child and their exit codes. \<open>fork\<close> copies the variables.
\<close>

definition run_task_fork :: "c_int \<Rightarrow> c_int \<Rightarrow> c_int \<Rightarrow>
    (fork_vars \<times> fork_out list \<times> nat) \<times> (fork_vars \<times> fork_out list \<times> nat) option" where
  "run_task_fork pid fork_result wait_result =
     (let v = \<lparr>global_value = 10, local_value = 5\<rparr>; o0 = [Values 10 5, Pid pid] in
      if fork_result <=s -1 then ((v, o0, 1), None)
      else (case parent_part wait_result v of (v', outs, code) \<Rightarrow>
        ((v', o0 @ outs, code), Some (child_part fork_result pid v))))"

section \<open>Properties\<close>

text \<open>
  The environment program does not change the variable it is asked to change: it sets a variable whose name is the old value. Only a variable whose
  value is its own name is set. In both cases the function ends without a value and \<open>main\<close> decides on it.
\<close>

theorem environment_sets_wrong_variable:
  assumes "e name = Some v" and "v \<noteq> []" and "CHR ''='' \<notin> set v"
  shows "run_task_env e name = (None, e(v \<mapsto> ''TEST''), [v, if v = name then ''TEST'' else v]) \<and>
    environment_main 2 e name = Inl Uninitialised"
  using assms by (simp add: run_task_env_def environment_main_def print_environment_def set_environment_def setenv_def)

theorem environment_sets_wrong_variable_witness:
  "run_task_env [''HOME'' \<mapsto> ''/root''] ''HOME'' = (None, [''HOME'' \<mapsto> ''/root'', ''/root'' \<mapsto> ''TEST''], [''/root'', ''/root'']) \<and>
   environment_main 2 [''HOME'' \<mapsto> ''/root''] ''HOME'' = Inl Uninitialised"
  using environment_sets_wrong_variable [of "[''HOME'' \<mapsto> ''/root'']" "''HOME''" "''/root''"] by simp

text \<open>
  The heap program reads its first block after it has freed it.
\<close>

lemma allocate_use_after_free: "allocate_main (Some a) calloc2 h = Inl BadAccess"
proof -
  let ?h1 = "h(a \<mapsto> hello_world @ 0 # drop 12 (replicate 100 0))"
  have "strcpy_block (h(a \<mapsto> replicate 100 0)) a hello_world = Inr ?h1" by (simp add: strcpy_block_def hello_world_def)
  moreover have "print_block ?h1 a = Inr hello_world" by (simp add: print_block_def hello_world_def c_str_def)
  moreover have "print_block (?h1(a := None)) a = Inl BadAccess" by (simp add: print_block_def load_def)
  ultimately show ?thesis by (simp add: allocate_main_def allocate_memory_heap_def free_cell_def)
qed

lemma hc_loop_fill:
  assumes "hc_i s + length as < size_allocation s" and "size_allocation s * SIZE_POINTER \<le> array_bytes s"
  shows "hc_loop (map (\<lambda>a. (Some a, r, True)) as @ rest) s =
    hc_loop rest (s\<lparr>hc_i := hc_i s + length as, stored := stored s @ as, mapped_pages := mapped_pages s + 8 * length as\<rparr>)"
  using assms
proof (induction as arbitrary: s)
  case (Cons a as)
  let ?s = "s\<lparr>hc_i := hc_i s + 1, stored := stored s @ [a], mapped_pages := mapped_pages s + 8\<rparr>"
  have "hc_round (Some a) r True s = Inr (Continue ?s)" using Cons.prems by (auto simp: hc_round_def map_pages_def SIZE_POINTER_def)
  moreover have "hc_loop (map (\<lambda>a. (Some a, r, True)) as @ rest) ?s =
      hc_loop rest (?s\<lparr>hc_i := hc_i ?s + length as, stored := stored ?s @ as, mapped_pages := mapped_pages ?s + 8 * length as\<rparr>)"
    using Cons.prems by (intro Cons.IH) auto
  ultimately show ?case by (simp add: ac_simps)
qed simp

text \<open>
  C40. The memory program stores 4096 blocks and breaks at the next one: \<open>realloc\<close> gets the number of elements instead of the number of
  bytes, shrinks the array from 32768 to 8192 bytes, and the next store is past its end. Up to then every store is inside the array, and eight
  pages per round stay mapped. A signal before that does not end the program properly either: its handler uses arguments nobody passed.
\<close>

theorem heap_corruption_overflows:
  assumes "length as = SIZE_BLOCK - 1"
  shows "(\<exists>s. heap_corruption True (map (\<lambda>a. (Some a, True, True)) as @ [(Some b, True, True)]) = Inr (Continue s) \<and>
      stored s = as @ [b] \<and> array_bytes s = 2 * SIZE_BLOCK \<and> mapped_pages s = 8 * SIZE_BLOCK) \<and>
    heap_corruption True (map (\<lambda>a. (Some a, True, True)) as @ [(Some b, True, True), (Some c, True, True)]) = Inl OutOfBounds \<and>
    on_signal sig_num = Inl Uninitialised"
proof -
  let ?s = "\<lparr>hc_i = 0, size_allocation = SIZE_BLOCK, array_bytes = SIZE_BLOCK * SIZE_POINTER, stored = [], mapped_pages = 0\<rparr>"
  let ?t = "\<lparr>hc_i = SIZE_BLOCK - 1, size_allocation = SIZE_BLOCK, array_bytes = SIZE_BLOCK * SIZE_POINTER, stored = as,
    mapped_pages = 8 * (SIZE_BLOCK - 1)\<rparr>"
  have fill: "heap_corruption True (map (\<lambda>a. (Some a, True, True)) as @ rest) = hc_loop rest ?t" for rest
    using hc_loop_fill [of ?s as True rest] assms by (simp add: heap_corruption_def SIZE_BLOCK_def)
  have r: "hc_round (Some b) True True ?t = Inr (Continue (?t\<lparr>hc_i := SIZE_BLOCK, stored := as @ [b], size_allocation := 2 * SIZE_BLOCK,
      array_bytes := 2 * SIZE_BLOCK, mapped_pages := 8 * SIZE_BLOCK\<rparr>))"
    by (simp add: hc_round_def map_pages_def SIZE_BLOCK_def SIZE_POINTER_def Let_def)
  show ?thesis unfolding fill using r
    by (simp add: hc_round_def [of "Some c"] SIZE_BLOCK_def SIZE_POINTER_def on_signal_def signal_callback_handler_def)
qed

theorem heap_corruption_overflows_witness:
  "heap_corruption True (map (\<lambda>a. (Some a, True, True)) (replicate 4095 0) @ [(Some 1, True, True), (Some 2, True, True)]) = Inl OutOfBounds"
  using heap_corruption_overflows [of "replicate 4095 0" 1 2] by (simp add: SIZE_BLOCK_def)

text \<open>
  \<open>fork\<close> copies the variables: whatever the child stores, the parent prints the same values before and after. The report on the child is printed
  exactly when the number of the child process is a multiple of 128, and the code in it is made of that number, never the exit code 5 of
  the child unless the number happens to say so.
\<close>

theorem fork_report_from_pid:
  assumes "\<not> fork_result <=s -1" and "wait_result \<noteq> -1"
  shows "\<exists>v. run_task_fork pid fork_result wait_result =
    (((\<lparr>global_value = 10, local_value = 5\<rparr>), [Values 10 5, Pid pid, Values 10 5] @
        (if wait_result AND 0x7F = 0 then [Ended wait_result (drop_bit 8 (wait_result AND 0xFF00))] else []) @ [Values 10 5], 0),
     Some (v, [Pid fork_result, Parent_pid pid, Values 10 5, Values 40 30], 5))"
  using assms by (simp add: run_task_fork_def parent_part_def child_part_def WIFEXITED_def WEXITSTATUS_def Let_def)

theorem fork_report_from_pid_witness:
  "\<exists>v. run_task_fork 100 256 256 =
    ((\<lparr>global_value = 10, local_value = 5\<rparr>, [Values 10 5, Pid 100, Values 10 5, Ended 256 1, Values 10 5], 0),
     Some (v, [Pid 256, Parent_pid 100, Values 10 5, Values 40 30], 5))"
  using fork_report_from_pid [of 256 256 100] by (simp add: word_sle_eq)

text \<open>
  The recursion ends, though nothing in the program stops it: with a stack of \<open>left\<close> bytes exactly the numbers up to the number of frames that fit are printed, and then the
  program is killed.
\<close>

theorem stack_corruption_depth:
  "stack_corruption extra left i = (map (\<lambda>k. i + 1 + k) [0..<left div (STACK_BUFFER + extra)], BadAccess)"
proof (induction extra left i rule: stack_corruption.induct)
  case (1 extra left i)
  let ?f = "STACK_BUFFER + extra"
  show ?case
  proof (cases "left < ?f")
    case True
    then show ?thesis by (simp add: stack_corruption.simps)
  next
    case False
    then have d: "left div ?f = Suc ((left - ?f) div ?f)" by (simp add: STACK_BUFFER_def le_div_geq)
    have "stack_corruption extra left i = ((i + 1) # map (\<lambda>k. i + 1 + 1 + k) [0..<(left - ?f) div ?f], BadAccess)"
      using False "1.IH" by (simp add: stack_corruption.simps [of extra left])
    also have "(i + 1) # map (\<lambda>k. i + 1 + 1 + k) [0..<(left - ?f) div ?f] = map (\<lambda>k. i + 1 + k) [0..<Suc ((left - ?f) div ?f)]"
      by (simp add: upt_conv_Cons map_Suc_upt [symmetric] del: upt_Suc)
    finally show ?thesis by (simp only: d)
  qed
qed

text \<open>
  Loading a library at run time: the function of the library runs and the library is closed again; a missing library is reported; a missing function is not, since the message is
  fetched a second time after it is gone, and \<open>NULL\<close> is printed as a string.
\<close>

theorem dlsym_failure_not_reported:
  "load_lib_run_function (Inr ()) (Inr t) = Inr ([t], True) \<and>
   load_lib_run_function (Inl e) d = Inr ([''dlopen() failed: '' @ e], False) \<and>
   load_lib_run_function (Inr ()) (Inl e) = Inl NullDeref \<and> dyn_main (Inr ()) (Inl e) = Inl NullDeref"
  by (simp add: dyn_main_def load_lib_run_function_def dlerror_def print_message_def)

end
