(* ===== verification/System_Calls.thy ===== *)
theory System_Calls
  imports Prelude
begin

text \<open>
  The programs of \<open>semestr1/Task2\<close>, which write a line to the terminal by a system call: with \<open>write\<close> (\<open>hello_world_write.c\<close>), with \<open>syscall\<close> (\<open>hello_world_syscall.c\<close>) and with the instruction itself
  (\<open>Task2_2/hello_world2.c\<close>). The kernel is a parameter: what it returns in the register \<open>rax\<close> for a descriptor and the bytes it is given. \<open>syscall\<close> and \<open>write\<close> are those of the
  C library: a result between \<open>-4095\<close> and \<open>-1\<close> is an error number, negated.
\<close>

type_synonym kernel_call = "c_int \<Rightarrow> c_char list \<Rightarrow> c_long"

text \<open>The value the caller gets, and what is stored in \<open>errno\<close>.\<close>

type_synonym call_result = "c_long \<times> c_int option"

definition STDOUT :: c_int where "STDOUT = 1"
definition ERROR :: c_long where "ERROR = -1"

definition syscall_result :: "c_long \<Rightarrow> call_result" where
  "syscall_result rax = (if sint rax \<in> {-4095..-1} then (-1, Some (ucast (- rax))) else (rax, None))"

text \<open>\<open>my_write\<close> of \<open>hello_world_syscall.c\<close>.\<close>

definition my_write_syscall :: "kernel_call \<Rightarrow> c_int \<Rightarrow> c_char list \<Rightarrow> call_result" where
  "my_write_syscall os fd bytes = syscall_result (os fd bytes)"

text \<open>
  \<open>my_write\<close> of \<open>hello_world2.c\<close>: the result is read from \<open>eax\<close>, the lower half of the register, as an \<open>int\<close>.
\<close>

definition my_write :: "kernel_call \<Rightarrow> c_int \<Rightarrow> c_char list \<Rightarrow> call_result" where
  "my_write os fd bytes = (let ret_value = ucast (os fd bytes) :: c_int
     in if ret_value <s 0 then (ERROR, Some (- ret_value)) else (scast ret_value, None))"

text \<open>The three programs: exit status. The last one passes 14 bytes, the text and its terminator.\<close>

definition write_main :: "kernel_call \<Rightarrow> nat" where
  "write_main os = (if fst (syscall_result (os STDOUT (bytes_of ''hello from write''))) = ERROR then 1 else 0)"

definition syscall_main :: "kernel_call \<Rightarrow> nat" where
  "syscall_main os = (if fst (my_write_syscall os STDOUT (bytes_of ''hello world syscall'')) = ERROR then 1 else 0)"

definition instruction_main :: "kernel_call \<Rightarrow> nat" where
  "instruction_main os = (if fst (my_write os STDOUT (take 14 (bytes_of ''hello world!'' @ [10, 0]))) = ERROR then 1 else 0)"

section \<open>The hand-made call\<close>

lemma sint_low_half:
  assumes "- (2 ^ 31) \<le> sint r" and "sint r < 2 ^ 31"
  shows "sint (ucast (r :: c_long) :: c_int) = sint r"
proof -
  have "(ucast r :: c_int) = word_of_int (sint r)" by transfer (simp add: take_bit_signed_take_bit)
  with assms show ?thesis by (simp add: sint_sbintrunc' signed_take_bit_int_eq_self del: of_int_sint)
qed

lemma take_bit_uminus: "take_bit 32 (- take_bit 64 r) = take_bit 32 (- r)" for r :: int
proof -
  have "take_bit 32 (- take_bit 64 r) = take_bit 32 (- take_bit 32 (take_bit 64 r))" by (simp only: take_bit_minus)
  also have "\<dots> = take_bit 32 (- r)" by (simp add: take_bit_minus)
  finally show ?thesis .
qed

lemma ucast_uminus: "(ucast (- (r :: c_long)) :: c_int) = - ucast r"
  by transfer (simp add: take_bit_uminus)

lemma my_write_eq:
  assumes "sint (os fd bytes) \<in> {-4095..0x7ffff000}"
  shows "my_write os fd bytes = my_write_syscall os fd bytes"
proof -
  let ?r = "os fd bytes"
  have low: "sint (ucast ?r :: c_int) = sint ?r" using assms by (intro sint_low_half) auto
  have "scast (ucast ?r :: c_int) = ?r" using low by (metis of_int_sint scast_eq scast_id)
  moreover have "ucast (- ?r) = - (ucast ?r :: c_int)" by (rule ucast_uminus)
  ultimately show ?thesis
    using assms low by (simp add: my_write_def my_write_syscall_def syscall_result_def ERROR_def word_sless_alt Let_def)
qed



text \<open>Each program exits with a failure exactly if the kernel reports an error.\<close>

theorem hello_exit_status:
  assumes "\<And>fd bytes. sint (os fd bytes) \<in> {-4095..0x7ffff000}"
  shows "write_main os = of_bool (sint (os STDOUT (bytes_of ''hello from write'')) < 0) \<and>
    syscall_main os = of_bool (sint (os STDOUT (bytes_of ''hello world syscall'')) < 0) \<and>
    instruction_main os = of_bool (sint (os STDOUT (bytes_of ''hello world!'' @ [10, 0])) < 0)"
proof -
  have "fst (my_write_syscall os fd bytes) = ERROR \<longleftrightarrow> sint (os fd bytes) < 0" for fd bytes
    using assms [of fd bytes] by (auto simp: my_write_syscall_def syscall_result_def ERROR_def)
  moreover have "my_write os fd bytes = my_write_syscall os fd bytes" for fd bytes
    by (rule my_write_eq) (rule assms)
  ultimately show ?thesis
    by (simp add: write_main_def syscall_main_def instruction_main_def my_write_syscall_def [symmetric] bytes_of_def)
qed

end
