(* ===== verification/Spec2Isabelle.thy ===== *)
theory Spec2Isabelle
  imports Queue_Sync Queue_Condvar Own_Locks Storage_Files Proxy_Handlers Logger Uthreads_Checker Uthreads_Stacks Thread_Life Thread_Cancel First_Threads My_Thread Signals
    Reverse_Tree Set_Commands_Links Sockets Processes System_Calls
begin

text \<open>
  Verification of the C programs of an operating-systems course. The repository holds independent programs, one per exercise, in the
  directories \<open>semestr1\<close> and \<open>semestr2\<close> under \<open>src\<close>. This theory joins the development; the theories under it are grouped by program.

  \<^bold>\<open>Common ground.\<close> \<open>Prelude\<close> has C's integers as words of their width, pointers and memory (a map from addresses to cells, so that a dereference of
  \<open>NULL\<close>, an access to freed memory and a wrong \<open>free\<close> are values of the type \<open>fault\<close>), C strings, and the lemmas the components share. What is not code of the
  repository (the kernel, the C library's input and output, the allocator's choices, the network) is a parameter, often a record of results,
  or a small executable model of the documented behaviour (locks, a file system). \<open>Interleaving\<close> has executions of threads given by a step function, with the contracts
  \<open>kept\<close> (an invariant holds in every reachable state) and \<open>finishing\<close> (from every reachable state a final one can be reached); the programs with threads that are not
  about a queue or a list are instances of it.

  \<^bold>\<open>The queue\<close> (\<open>semestr2/Task2/Task2_1\<close>, \<open>Task2_2\<close>). A linked list with a bounded count, a writer, a reader and a monitor thread, in seven versions.
  \<^item> \<open>Lock_Program\<close>: threads over shared globals, a heap and one lock, as an interleaving step relation; the interface \<open>lock_iface\<close> with the mutex, the spin lock and the semaphore as
    instances; the rule of resource invariants (locale \<open>lock_program\<close>).
  \<^item> \<open>Queue_Code\<close>, \<open>Queue_Inv\<close>: the records \<open>qnode_t\<close> and \<open>queue_t\<close>, the C statements of the queue functions and their meaning, one statement per step (an increment of a shared field is
    two); the representation invariant. A function is the list of its statements. \<open>run_call\<close> runs one call with at most 30 statements, which is more than
    any path through a function has; the lemmas show that a result is reached.
  \<^item> \<open>Queue_Plain\<close>: \<open>queue.c\<close>, \<open>queue-example.c\<close>, \<open>queue-threads.c\<close> without synchronisation: calls refine a bounded FIFO queue, \<open>queue_destroy\<close> frees every
    node, and an interleaving of two threads that uses a freed node.
  \<^item> \<open>Queue_Threads\<close>, \<open>Queue_Sync\<close>: the programs with a mutex, a spin lock, a semaphore, a semaphore between processes, and a mutex with delays: in every reachable state of every
    interleaving no fault, the reader has received 0, 1, 2, ... without a gap, the statistics agree, and some thread can run.
  \<^item> \<open>Queue_Condvar\<close>: the version with a condition variable and a flag that makes the threads alternate; no wake-up is lost.

  \<^bold>\<open>Hand-made locks\<close> (\<open>semestr2/Task2/Task2_4\<close>). \<open>Own_Locks\<close>: a spin lock and a \<open>futex\<close> mutex from an atomic compare-and-exchange; mutual exclusion, no lost increment, the programs can always
  run to their end.

  \<^bold>\<open>A list with a lock in every node\<close> (\<open>semestr2/Task2/Task2_3\<close>). \<open>Storage_List\<close> has the nodes, the construction of the list and \<open>swap_nodes\<close>, \<open>Storage_Threads\<close> the statements and the interleavings with a
  table of locks (contract \<open>hand_over_hand\<close>), \<open>Storage_Walk\<close> the passes over the list, \<open>Storage_Files\<close> the three programs: no bad access, locks respected,
  no deadlock, pairs counted exactly.

  \<^bold>\<open>The HTTP proxy\<close> (\<open>semestr2/Task3\<close>).
  \<^item> \<open>Cache\<close> is \<open>cache_list.h\<close>: the linked list refines a finite map from hashes to responses (contract \<open>response_cache\<close>).
  \<^item> \<open>Proxy\<close> is \<open>server.c\<close>, \<open>proxy.c\<close> and \<open>main.c\<close> with one handler at a time: new requests are served and stored, later ones are answered from memory, and handlers that answer from
    memory use up the semaphore.
  \<^item> \<open>Proxy_Threads\<close> interleaves the accept loop and the handlers, with the variable \<open>ctx\<close> they share, descriptors that are handed out again and requests that are freed: the cache
    and the semaphore stay correct in every interleaving, clients do not (two executions show how). \<open>Proxy_Handlers\<close>: a handler that is not interrupted does what
    \<open>Proxy\<close> says.
  \<^item> \<open>Logger\<close> is \<open>logger.h\<close> with its arrays at their size: which texts fit.

  \<^bold>\<open>User-level threads\<close> (\<open>semestr2/Task1/Task1_7\<close>). \<open>Uthreads\<close> has the creation of threads, \<open>schedule\<close> as a switch between stored C stacks, the thread functions and the checker thread. What the compiler
  takes the uninitialised flags for is a parameter. \<open>Uthreads_Stacks\<close>: the stacks and contexts are always well-formed, \<open>schedule\<close> is a round robin; \<open>Uthreads_Checker\<close>: the program never
  ends, or threads are removed before they have run.

  \<^bold>\<open>Lives of threads\<close> (\<open>semestr2/Task1\<close>, \<open>Task1_1\<close> to \<open>Task1_6\<close>). \<open>First_Threads\<close>: programs that create one thread and hand it a structure, as lists of statements with failing calls. \<open>Thread_Life\<close>: threads
  nobody joins use up the descriptors, detached ones do not; the value of a joined thread. \<open>Thread_Cancel\<close>: cancellation and its handler, whichever calls fail.
  \<open>My_Thread\<close>: threads made with \<open>clone\<close> and two flags; the error-checking mutex of \<open>semestr2/Task2/Task2_2/semafor/test.c\<close>, which the wrong thread cannot
  unlock. \<open>Signals\<close>: threads that block signals, let one through or wait for one, with the signals others send.

  \<^bold>\<open>The directory reverser\<close> (\<open>semestr1/Task3/Task3_1\<close>). \<open>Reverse\<close> has the code with its buffers at their size and a file system of paths, and reversal of lines and files; \<open>Reverse_Tree\<close> shows that
  a tree of directories is turned into the reversed tree (contract \<open>entry_handler\<close>), that twice gives a copy, and that \<open>run\<close> always overflows its
  buffers. The recursion over directories has a bound \<open>depth\<close>; the theorems hold for every bound that is at least the nesting of the tree.

  \<^bold>\<open>The file commands\<close> (\<open>semestr1/Task3/Task3_2\<close>). \<open>Set_Commands\<close> has the commands over a file system with inodes and links, \<open>Set_Commands_Links\<close> the invariant every command keeps (contract
  \<open>fs_invariant\<close>), the commands that undo each other, the output of \<open>print_file\<close> and when it does not return, and the faults of the link, permission
  and selection code. Symbolic links are followed at most forty times, as the kernel does.

  \<^bold>\<open>Echo over sockets\<close> (\<open>semestr1/Task6\<close>). \<open>Sockets\<close>: the programs over Unix domain sockets and over UDP, client and server put together by the contract \<open>echo_service\<close>; the handler that
  reaps children.

  \<^bold>\<open>Processes and memory\<close> (\<open>semestr1/Task1/Task1_4\<close>, \<open>Task4\<close>, \<open>Task5\<close>). \<open>Processes\<close>: environment variables, use after free, a wrong \<open>realloc\<close>, growth of the stack, a library loaded at run time, \<open>fork\<close>.
  \<open>System_Calls\<close> (\<open>semestr1/Task2\<close>): the hand-made system call agrees with that of the C library.

  \<^bold>\<open>Not modelled.\<close> Programs that print a constant line or addresses (\<open>semestr1/Task1/Task1_1\<close> to \<open>Task1_3\<close>, \<open>Task2_1/hello_world.c\<close>, parts of \<open>Task4\<close>): they have no state and make no
  decision. Files that do not compile (\<open>semestr2/Task1\<close>: \<open>Task1_1\<close> b and d, \<open>Task1_2\<close> c, \<open>Task1_4\<close> a, \<open>main\<close> of \<open>Task1_5\<close>, the end of \<open>my_thread_create\<close> of \<open>Task1_6\<close>): they have no behaviour, and what
  they mean to do is modelled for their neighbours. Two queue files of \<open>Task2_2\<close> have a slip in one declaration (\<open>queue-mutex.c\<close> line 22, \<open>queue-semafor.c\<close> line 11) and are read as meant.
  A failing \<open>swapcontext\<close>; processor affinity, delays and most output on the terminal; the files CMake generated. Functions that have the
  same text in several files (the list of \<open>Task2_3\<close>) are modelled once.
\<close>

end
